theory Spec2Isabelle
  imports Main
begin

section \<open>RockAuto price scraper (rockauto\_s3.py)\<close>

text \<open>
  The program is a linear pipeline: reset four CSV objects in S3, read part numbers from
  the warehouse, scrape one price per part number, upload the result tables. Every
  external service is represented by what it answers: the warehouse and the object store
  by flags saying which call raises, the web site by the outcome of each HTTP GET. The
  functions below keep the names of the Python functions they embed.
\<close>

subsection \<open>Exceptions\<close>

text \<open>
  The exceptions the external calls of the program raise. All of them derive from
  Python's \<^verbatim>\<open>Exception\<close>. A function that can raise returns \<open>py_exn + 'a\<close>, with
  \<open>Inl\<close> for the exception.
\<close>

datatype wh_stage = Connect | Execute | Fetchall

datatype py_exn =
    RequestsConnectionError
  | RequestsTimeout
  | HTTPError nat
  | WarehouseError wh_stage
  | StorageError
  | ValueError

subsection \<open>The regular expression \<^verbatim>\<open>\d+(\.\d+)?\<close>\<close>

text \<open>
  Strings are \<open>char list\<close>; \<^verbatim>\<open>\d\<close> is read as the ten ASCII digits. (On Python
  \<^verbatim>\<open>str\<close> the class also holds the other Unicode decimal digits, which an 8-bit
  \<open>char\<close> does not have.)
\<close>

definition is_digit :: "char \<Rightarrow> bool" where
  "is_digit c = (c \<in> set ''0123456789'')"

text \<open>
  The fragment of regular expressions the pattern is written in, with a backtracking
  matcher in the manner of Python's \<^verbatim>\<open>re\<close>: \<open>rx_match r s\<close> lists, in the order
  in which backtracking tries them, the rests of \<open>s\<close> that remain after \<open>r\<close> has
  matched a prefix of \<open>s\<close>. Quantifiers are greedy: \<open>Opt\<close> tries its body before the
  empty match, \<open>Plus\<close> tries a further iteration before it stops.
\<close>

datatype rx = Digit | Lit char | Seq rx rx | Opt rx | Plus rx

function rx_match :: "rx \<Rightarrow> string \<Rightarrow> string list" where
  "rx_match Digit s = (case s of [] \<Rightarrow> [] | c # cs \<Rightarrow> if is_digit c then [cs] else [])"
| "rx_match (Lit a) s = (case s of [] \<Rightarrow> [] | c # cs \<Rightarrow> if c = a then [cs] else [])"
| "rx_match (Seq r1 r2) s = concat (map (rx_match r2) (rx_match r1 s))"
| "rx_match (Opt r) s = rx_match r s @ [s]"
| "rx_match (Plus r) s =
     concat (map (\<lambda>t. (if length t < length s then rx_match (Plus r) t else []) @ [t])
                 (rx_match r s))"
  by pat_completeness auto
termination
  by (relation "measures [\<lambda>(r, s). size r, \<lambda>(r, s). length s]") auto

text \<open>
  \<^verbatim>\<open>re.search(r, s)\<close> followed by \<^verbatim>\<open>m.group()\<close>: the match at the leftmost position
  where the pattern matches, and there the first match in backtracking order;
  \<open>None\<close> when the pattern matches nowhere.
\<close>

fun re_search :: "rx \<Rightarrow> string \<Rightarrow> string option" where
  "re_search r [] = (case rx_match r [] of t # _ \<Rightarrow> Some [] | [] \<Rightarrow> None)"
| "re_search r (c # cs) =
     (case rx_match r (c # cs) of
        t # _ \<Rightarrow> Some (take (length (c # cs) - length t) (c # cs))
      | [] \<Rightarrow> re_search r cs)"

text \<open>A string is a full match of \<open>r\<close> when some way of matching consumes all of it.\<close>

definition full_match :: "rx \<Rightarrow> string \<Rightarrow> bool" where
  "full_match r s = ([] \<in> set (rx_match r s))"

text \<open>The pattern of lines 88 and 138: \<^verbatim>\<open>\d+(\.\d+)?\<close>.\<close>

definition price_rx :: rx where
  "price_rx = Seq (Plus Digit) (Opt (Seq (Lit CHR ''.'') (Plus Digit)))"

subsection \<open>The parsed HTML document\<close>

text \<open>
  \<^verbatim>\<open>BeautifulSoup(resp.text, "html.parser")\<close> is library code; the model starts from
  the tree it builds. A node is a text string or an element with its tag name (lower
  case, as the parser stores it), its attribute dictionary (a list of keys and values
  in which no key occurs twice) and its children. Comments, declarations and the like
  are no part of the tree: no selector matches them and \<^verbatim>\<open>get_text\<close> skips them.
\<close>

datatype node = Text string | Element string "(string \<times> string) list" "node list"

text \<open>
  All elements below a node in document order (pre-order), each with the list of its
  ancestors, nearest first.
\<close>

fun elements :: "node list \<Rightarrow> node \<Rightarrow> (node list \<times> node) list" where
  "elements anc (Text s) = []"
| "elements anc (Element t as cs) =
     (anc, Element t as cs) # concat (map (elements (Element t as cs # anc)) cs)"

definition soup_elements :: "node list \<Rightarrow> (node list \<times> node) list" where
  "soup_elements doc = concat (map (elements []) doc)"

fun tag_name :: "node \<Rightarrow> string" where
  "tag_name (Text s) = []"
| "tag_name (Element t as cs) = t"

fun attr :: "node \<Rightarrow> string \<Rightarrow> string option" where
  "attr (Text s) k = None"
| "attr (Element t as cs) k = map_of as k"

text \<open>
  The parser gives every string of the document a class. A string inside one of the
  elements below (the innermost one, at any depth) gets that element's own class:
  \<^verbatim>\<open>RubyTextString\<close>, \<^verbatim>\<open>RubyParenthesisString\<close>, \<^verbatim>\<open>Stylesheet\<close>,
  \<^verbatim>\<open>Script\<close>, \<^verbatim>\<open>TemplateString\<close>. Every other string is a plain
  \<^verbatim>\<open>NavigableString\<close>. A class is written as the tag name of its container; \<open>None\<close> is
  the plain class.
\<close>

definition string_containers :: "string list" where
  "string_containers = [''rt'', ''rp'', ''style'', ''script'', ''template'']"

fun container_of :: "node list \<Rightarrow> string option" where
  "container_of [] = None"
| "container_of (a # anc) =
     (if tag_name a \<in> set string_containers then Some (tag_name a) else container_of anc)"

text \<open>
  The strings below a node in document order, each with its class; \<open>c\<close> is the class
  that the ancestors of the node give.
\<close>

fun all_strings :: "string option \<Rightarrow> node \<Rightarrow> (string option \<times> string) list" where
  "all_strings c (Text s) = [(c, s)]"
| "all_strings c (Element t as cs) =
     concat (map (all_strings (if t \<in> set string_containers then Some t else c)) cs)"

text \<open>
  \<^verbatim>\<open>el.get_text()\<close> joins the strings below \<open>el\<close> whose class is one that \<open>el\<close>
  finds interesting: the element's own class for one of the containers above, the
  plain class for every other element. An element is given with its ancestors, nearest
  first, as a \<^verbatim>\<open>Tag\<close> knows its parents.
\<close>

definition interesting_string_types :: "node \<Rightarrow> string option" where
  "interesting_string_types el =
     (if tag_name el \<in> set string_containers then Some (tag_name el) else None)"

definition get_text :: "node list \<times> node \<Rightarrow> string" where
  "get_text ae =
     concat (map snd
       (filter (\<lambda>ks. fst ks = interesting_string_types (snd ae))
          (all_strings (container_of (fst ae)) (snd ae))))"

definition starts_with :: "string \<Rightarrow> string \<Rightarrow> bool" where
  "starts_with s p = (take (length p) s = p)"

text \<open>The compound selector \<^verbatim>\<open>span[id^='dprice']\<close>.\<close>

definition is_dprice_span :: "node \<Rightarrow> bool" where
  "is_dprice_span n =
     (tag_name n = ''span'' \<and>
      (case attr n ''id'' of None \<Rightarrow> False | Some v \<Rightarrow> starts_with v ''dprice''))"

text \<open>
  The selector \<^verbatim>\<open>span[id^='dprice'] span\<close> (descendant combinator): a \<^verbatim>\<open>span\<close>
  element one of whose ancestors is a \<^verbatim>\<open>span\<close> with an id that starts with
  \<^verbatim>\<open>dprice\<close>.
\<close>

definition css_match :: "node list \<times> node \<Rightarrow> bool" where
  "css_match ae = (tag_name (snd ae) = ''span'' \<and> list_ex is_dprice_span (fst ae))"

text \<open>\<^verbatim>\<open>soup.select_one(...)\<close>: the first match in document order, or \<open>None\<close>.\<close>

definition select_one :: "node list \<Rightarrow> (node list \<times> node) option" where
  "select_one doc =
     (case filter css_match (soup_elements doc) of [] \<Rightarrow> None | ae # _ \<Rightarrow> Some ae)"

subsection \<open>The price fetcher\<close>

text \<open>
  What \<^verbatim>\<open>requests.get(url, headers=HEADERS, timeout=10)\<close> does for one call: it
  raises, or it returns a response with a status code and a body (here the parsed body).
\<close>

record response =
  status_code :: nat
  soup :: "node list"

datatype get_outcome = Raises py_exn | Returns response

text \<open>\<^verbatim>\<open>resp.raise_for_status()\<close> raises on a 4xx or 5xx status and on no other.\<close>

definition raise_for_status :: "response \<Rightarrow> py_exn + unit" where
  "raise_for_status resp =
     (if 400 \<le> status_code resp \<and> status_code resp < 600
      then Inl (HTTPError (status_code resp)) else Inr ())"

text \<open>Lines 77 to 79, the body of the \<^verbatim>\<open>try\<close>.\<close>

definition try_get :: "get_outcome \<Rightarrow> py_exn + response" where
  "try_get out =
     (case out of
        Raises e \<Rightarrow> Inl e
      | Returns resp \<Rightarrow>
          (case raise_for_status resp of Inl e \<Rightarrow> Inl e | Inr u \<Rightarrow> Inr resp))"

text \<open>
  \<^verbatim>\<open>fetch_price(vpn)\<close>, given the outcome of its HTTP GET. The result \<open>Inr None\<close> is
  Python's \<^verbatim>\<open>return None\<close>; \<open>Inl e\<close> would be an exception that leaves the function.
\<close>

definition fetch_price :: "get_outcome \<Rightarrow> py_exn + string option" where
  "fetch_price out =
     (case try_get out of
        Inl e \<Rightarrow> Inr None
      | Inr resp \<Rightarrow>
          (case select_one (soup resp) of
             None \<Rightarrow> Inr None
           | Some el \<Rightarrow> Inr (re_search price_rx (get_text el))))"

subsection \<open>The world outside the program\<close>

text \<open>
  A CSV object is kept as the table that \<^verbatim>\<open>csv.writer\<close> serialises: the header row
  and the data rows. The bucket maps keys to objects; \<open>put_log\<close> lists the successful
  \<^verbatim>\<open>put_object\<close> calls in order and \<open>put_attempts\<close> counts all of them. The
  warehouse side counts the connections and cursors that are open.
\<close>

record csv_file =
  header :: "string list"
  rows :: "string list list"

record world =
  objects :: "string \<Rightarrow> csv_file option"
  put_log :: "(string \<times> csv_file) list"
  put_attempts :: nat
  open_conns :: nat
  open_cursors :: nat

text \<open>
  What the services answer during one run: whether the \<open>n\<close>-th \<^verbatim>\<open>put_object\<close>
  raises, whether \<^verbatim>\<open>connect\<close> and \<^verbatim>\<open>execute\<close> raise, the rows \<^verbatim>\<open>fetchall\<close>
  returns (\<open>None\<close> when it raises), and the outcome of the \<open>n\<close>-th HTTP GET of the
  run, which is sent for a vendor part number.
\<close>

record env =
  s3_put_fails :: "nat \<Rightarrow> bool"
  sf_connect_fails :: bool
  sf_execute_fails :: bool
  sf_fetchall :: "(string \<times> string) list option"
  http_get :: "nat \<Rightarrow> string \<Rightarrow> get_outcome"

text \<open>Sequencing of calls that may raise: an exception skips what follows.\<close>

definition then_do ::
  "(py_exn + 'a) \<times> world \<Rightarrow> ('a \<Rightarrow> world \<Rightarrow> (py_exn + 'b) \<times> world) \<Rightarrow> (py_exn + 'b) \<times> world"
where
  "then_do r f = (case r of (Inl e, w) \<Rightarrow> (Inl e, w) | (Inr a, w) \<Rightarrow> f a w)"

definition multi_result_log_csv :: string where
  "multi_result_log_csv = ''multi_result_error_log.csv''"

definition not_found_log_csv :: string where
  "not_found_log_csv = ''not_found_error_log.csv''"

definition output_csv_file :: string where
  "output_csv_file = ''part_numbers_with_prices.csv''"

definition cleaned_csv_file :: string where
  "cleaned_csv_file = ''cleaned_part_numbers_with_prices.csv''"

definition error_columns :: "string list" where
  "error_columns = [''VendorPartNumber'', ''Error'']"

definition price_columns :: "string list" where
  "price_columns = [''SupplierPartNumber'', ''Partnumber'', ''Cost'']"

subsection \<open>Storage writer\<close>

text \<open>\<^verbatim>\<open>s3.put_object(Bucket=BUCKET_NAME, Key=key, Body=...)\<close>.\<close>

definition put_object :: "env \<Rightarrow> string \<Rightarrow> csv_file \<Rightarrow> world \<Rightarrow> (py_exn + unit) \<times> world" where
  "put_object e key body w =
     (if s3_put_fails e (put_attempts w)
      then (Inl StorageError, w\<lparr>put_attempts := Suc (put_attempts w)\<rparr>)
      else (Inr (),
            w\<lparr>objects := (objects w)(key \<mapsto> body),
              put_log := put_log w @ [(key, body)],
              put_attempts := Suc (put_attempts w)\<rparr>))"

definition clear_csv_on_s3 ::
  "env \<Rightarrow> string \<Rightarrow> string list \<Rightarrow> world \<Rightarrow> (py_exn + unit) \<times> world" where
  "clear_csv_on_s3 e key headers w = put_object e key \<lparr>header = headers, rows = []\<rparr> w"

definition clear_all_csvs :: "env \<Rightarrow> world \<Rightarrow> (py_exn + unit) \<times> world" where
  "clear_all_csvs e w =
     then_do (clear_csv_on_s3 e multi_result_log_csv error_columns w) (\<lambda>u w.
     then_do (clear_csv_on_s3 e not_found_log_csv error_columns w) (\<lambda>u w.
     then_do (clear_csv_on_s3 e output_csv_file price_columns w) (\<lambda>u w.
     clear_csv_on_s3 e cleaned_csv_file price_columns w)))"

text \<open>
  A row handed to \<^verbatim>\<open>csv.DictWriter\<close> is a dictionary. The writer raises
  \<^verbatim>\<open>ValueError\<close> on a row with a key that is no field name; otherwise it emits the
  values of the field names in their order, and the empty string for a missing key.
\<close>

definition dict_to_list :: "string list \<Rightarrow> (string \<times> string) list \<Rightarrow> py_exn + string list" where
  "dict_to_list fieldnames d =
     (if list_all (\<lambda>k. k \<in> set fieldnames) (map fst d)
      then Inr (map (\<lambda>f. case map_of d f of None \<Rightarrow> [] | Some v \<Rightarrow> v) fieldnames)
      else Inl ValueError)"

fun writerows :: "string list \<Rightarrow> (string \<times> string) list list \<Rightarrow> py_exn + string list list" where
  "writerows fieldnames [] = Inr []"
| "writerows fieldnames (d # ds) =
     (case dict_to_list fieldnames d of
        Inl x \<Rightarrow> Inl x
      | Inr r \<Rightarrow>
          (case writerows fieldnames ds of Inl x \<Rightarrow> Inl x | Inr rs \<Rightarrow> Inr (r # rs)))"

text \<open>
  \<^verbatim>\<open>save_csv_to_s3(rows, key, fieldnames)\<close>: the table is written to a buffer first,
  so an exception of the writer leaves the function before any upload.
\<close>

definition save_csv_to_s3 ::
  "env \<Rightarrow> (string \<times> string) list list \<Rightarrow> string \<Rightarrow> string list \<Rightarrow> world \<Rightarrow> (py_exn + unit) \<times> world"
where
  "save_csv_to_s3 e rs key fieldnames w =
     (case writerows fieldnames rs of
        Inl x \<Rightarrow> (Inl x, w)
      | Inr table \<Rightarrow> put_object e key \<lparr>header = fieldnames, rows = table\<rparr> w)"

subsection \<open>Warehouse reader\<close>

record part =
  vendor_part_number :: string
  part_number :: string

text \<open>
  \<^verbatim>\<open>fetch_part_numbers()\<close>. The function has no \<^verbatim>\<open>try\<close>: an exception of
  \<^verbatim>\<open>connect\<close>, \<^verbatim>\<open>execute\<close> or \<^verbatim>\<open>fetchall\<close> leaves it at once, and the two
  \<^verbatim>\<open>close\<close> calls of lines 65 and 66 run only after \<^verbatim>\<open>fetchall\<close> has returned.
\<close>

definition fetch_part_numbers :: "env \<Rightarrow> world \<Rightarrow> (py_exn + part list) \<times> world" where
  "fetch_part_numbers e w =
     (if sf_connect_fails e then (Inl (WarehouseError Connect), w)
      else
        let w1 = w\<lparr>open_conns := Suc (open_conns w)\<rparr>;
            w2 = w1\<lparr>open_cursors := Suc (open_cursors w1)\<rparr>
        in
          if sf_execute_fails e then (Inl (WarehouseError Execute), w2)
          else
            (case sf_fetchall e of
               None \<Rightarrow> (Inl (WarehouseError Fetchall), w2)
             | Some rs \<Rightarrow>
                 let w3 = w2\<lparr>open_cursors := open_cursors w2 - 1\<rparr>;
                     w4 = w3\<lparr>open_conns := open_conns w3 - 1\<rparr>
                 in (Inr (map (\<lambda>r. \<lparr>vendor_part_number = fst r, part_number = snd r\<rparr>) rs),
                     w4)))"

subsection \<open>Result aggregator\<close>

record price_row =
  SupplierPartNumber :: string
  Partnumber :: string
  Cost :: string

record error_row =
  VendorPartNumber :: string
  Error :: string

definition price_row_dict :: "price_row \<Rightarrow> (string \<times> string) list" where
  "price_row_dict r =
     [(''SupplierPartNumber'', SupplierPartNumber r), (''Partnumber'', Partnumber r),
      (''Cost'', Cost r)]"

definition error_row_dict :: "error_row \<Rightarrow> (string \<times> string) list" where
  "error_row_dict r = [(''VendorPartNumber'', VendorPartNumber r), (''Error'', Error r)]"

text \<open>
  The loop of lines 106 to 118, on its three lists; \<open>i\<close> counts the HTTP calls made so
  far. \<^verbatim>\<open>time.sleep(1)\<close> changes no value and is left out.
\<close>

fun classify_loop ::
  "(nat \<Rightarrow> string \<Rightarrow> get_outcome) \<Rightarrow> nat \<Rightarrow> part list \<Rightarrow>
   price_row list \<times> string list \<times> string list \<Rightarrow>
   py_exn + price_row list \<times> string list \<times> string list"
where
  "classify_loop get i [] acc = Inr acc"
| "classify_loop get i (rec # rest) (raw_results, multi_errors, not_found) =
     (let vpn = vendor_part_number rec; pnum = part_number rec in
      case fetch_price (get i vpn) of
        Inl e \<Rightarrow> Inl e
      | Inr None \<Rightarrow>
          classify_loop get (Suc i) rest
            (raw_results @
               [\<lparr>SupplierPartNumber = vpn, Partnumber = pnum, Cost = ''Not Found''\<rparr>],
             multi_errors, not_found @ [vpn])
      | Inr (Some price) \<Rightarrow>
          classify_loop get (Suc i) rest
            (raw_results @ [\<lparr>SupplierPartNumber = vpn, Partnumber = pnum, Cost = price\<rparr>],
             multi_errors, not_found))"

text \<open>The three lists of the aggregator after its loop (lines 102 to 118).\<close>

definition classify ::
  "env \<Rightarrow> part list \<Rightarrow> py_exn + price_row list \<times> string list \<times> string list" where
  "classify e part_numbers = classify_loop (http_get e) 0 part_numbers ([], [], [])"

text \<open>The cleaning loop of lines 136 to 144.\<close>

fun clean_loop :: "price_row list \<Rightarrow> price_row list \<Rightarrow> price_row list" where
  "clean_loop [] cleaned = cleaned"
| "clean_loop (row # rest) cleaned =
     (case re_search price_rx (Cost row) of
        None \<Rightarrow> clean_loop rest cleaned
      | Some m \<Rightarrow>
          clean_loop rest
            (cleaned @
               [\<lparr>SupplierPartNumber = SupplierPartNumber row, Partnumber = Partnumber row,
                 Cost = m\<rparr>]))"

definition clean :: "price_row list \<Rightarrow> price_row list" where
  "clean raw_results = clean_loop raw_results []"

text \<open>The error entries built at lines 123 and 129.\<close>

definition multi_entries :: "string list \<Rightarrow> error_row list" where
  "multi_entries multi_errors =
     map (\<lambda>v. \<lparr>VendorPartNumber = v, Error = ''Multiple results found''\<rparr>) multi_errors"

definition not_found_entries :: "string list \<Rightarrow> error_row list" where
  "not_found_entries not_found =
     map (\<lambda>v. \<lparr>VendorPartNumber = v, Error = ''No results found''\<rparr>) not_found"

text \<open>Lines 120 to 145: the uploads, given the three lists.\<close>

definition write_results ::
  "env \<Rightarrow> price_row list \<times> string list \<times> string list \<Rightarrow> world \<Rightarrow> (py_exn + unit) \<times> world"
where
  "write_results e ls w =
     (case ls of (raw_results, multi_errors, not_found) \<Rightarrow>
        then_do
          (if multi_errors \<noteq> []
           then save_csv_to_s3 e (map error_row_dict (multi_entries multi_errors))
                  multi_result_log_csv error_columns w
           else (Inr (), w)) (\<lambda>u w.
        then_do
          (if not_found \<noteq> []
           then save_csv_to_s3 e (map error_row_dict (not_found_entries not_found))
                  not_found_log_csv error_columns w
           else (Inr (), w)) (\<lambda>u w.
        then_do
          (save_csv_to_s3 e (map price_row_dict raw_results) output_csv_file price_columns w)
          (\<lambda>u w.
        save_csv_to_s3 e (map price_row_dict (clean raw_results)) cleaned_csv_file
          price_columns w))))"

definition search_part_numbers_on_rockauto ::
  "env \<Rightarrow> part list \<Rightarrow> world \<Rightarrow> (py_exn + unit) \<times> world" where
  "search_part_numbers_on_rockauto e part_numbers w =
     (case classify e part_numbers of
        Inl x \<Rightarrow> (Inl x, w)
      | Inr ls \<Rightarrow> write_results e ls w)"

subsection \<open>Orchestrator\<close>

record summary =
  statusCode :: nat
  message :: string
  searched_count :: nat

definition lambda_handler :: "env \<Rightarrow> world \<Rightarrow> (py_exn + summary) \<times> world" where
  "lambda_handler e w =
     then_do (clear_all_csvs e w) (\<lambda>u w.
     then_do (fetch_part_numbers e w) (\<lambda>parts w.
     then_do (search_part_numbers_on_rockauto e parts w) (\<lambda>u w.
     (Inr \<lparr>statusCode = 200, message = ''RockAuto scrape complete'',
           searched_count = length parts\<rparr>, w))))"

section \<open>Notions used in the statements\<close>

subsection \<open>Properties in the words of the specification and of its amendments\<close>

text \<open>
  "A PriceResult has cost Not Found if and only if a corresponding ErrorEntry with
  reason No results found exists for the same vendor part number."
\<close>

definition not_found_iff_error_entry :: "price_row list \<Rightarrow> error_row list \<Rightarrow> bool" where
  "not_found_iff_error_entry raw entries =
     list_all (\<lambda>r. (Cost r = ''Not Found'') =
        list_ex (\<lambda>x. VendorPartNumber x = SupplierPartNumber r \<and>
                      Error x = ''No results found'') entries) raw"

text \<open>
  "Locate the first element whose identifier attribute begins with a fixed prefix
  denoting a displayed price, and within it, its first nested text-bearing element. If
  no such element exists, return not found." Read word by word: any element with such an
  id, the first one in document order; inside that element, the first element that
  holds text.
\<close>

definition has_dprice_id :: "node \<Rightarrow> bool" where
  "has_dprice_id n =
     (case attr n ''id'' of None \<Rightarrow> False | Some v \<Rightarrow> starts_with v ''dprice'')"

fun children :: "node \<Rightarrow> node list" where
  "children (Text s) = []"
| "children (Element t as cs) = cs"

definition nested_elements :: "node list \<times> node \<Rightarrow> (node list \<times> node) list" where
  "nested_elements ae = concat (map (elements (snd ae # fst ae)) (children (snd ae)))"

definition spec_price_element :: "node list \<Rightarrow> (node list \<times> node) option" where
  "spec_price_element doc =
     (case filter (\<lambda>ae. has_dprice_id (snd ae)) (soup_elements doc) of
        [] \<Rightarrow> None
      | ae # _ \<Rightarrow>
          (case filter (\<lambda>x. get_text x \<noteq> []) (nested_elements ae) of
             [] \<Rightarrow> None
           | x # _ \<Rightarrow> Some x))"

definition spec_fetch_price :: "node list \<Rightarrow> string option" where
  "spec_fetch_price doc =
     (case spec_price_element doc of
        None \<Rightarrow> None
      | Some el \<Rightarrow> re_search price_rx (get_text el))"


text \<open>
  The element the price is read from, found by walking the document in its order:
  the first \<^verbatim>\<open>span\<close> met inside a \<^verbatim>\<open>span\<close> whose id starts with \<^verbatim>\<open>dprice\<close>.
  \<open>inside\<close> says that the walk is inside such a \<^verbatim>\<open>span\<close>.
\<close>

fun first_nested_span :: "bool \<Rightarrow> node list \<Rightarrow> node \<Rightarrow> (node list \<times> node) option" where
  "first_nested_span inside anc (Text s) = None"
| "first_nested_span inside anc (Element t as cs) =
     (if inside \<and> t = ''span'' then Some (anc, Element t as cs)
      else
        (case filter (\<lambda>r. r \<noteq> None)
                (map (first_nested_span
                        (inside \<or> (t = ''span'' \<and> has_dprice_id (Element t as cs)))
                        (Element t as cs # anc)) cs) of
           [] \<Rightarrow> None
         | r # _ \<Rightarrow> r))"

definition first_price_span :: "node list \<Rightarrow> (node list \<times> node) option" where
  "first_price_span doc =
     (case filter (\<lambda>r. r \<noteq> None) (map (first_nested_span False []) doc) of
        [] \<Rightarrow> None
      | r # _ \<Rightarrow> r)"

text \<open>
  The text of an element that counts: its strings in document order, without those
  inside \<^verbatim>\<open>rt\<close>, \<^verbatim>\<open>rp\<close>, \<^verbatim>\<open>style\<close>, \<^verbatim>\<open>script\<close> and \<^verbatim>\<open>template\<close>
  elements; and none at all when the element itself lies inside one of these.
\<close>

fun plain_text :: "node \<Rightarrow> string" where
  "plain_text (Text s) = s"
| "plain_text (Element t as cs) =
     (if t \<in> set string_containers then [] else concat (map plain_text cs))"

definition counted_text :: "node list \<times> node \<Rightarrow> string" where
  "counted_text ae =
     (if list_ex (\<lambda>a. tag_name a \<in> set string_containers) (fst ae) then []
      else plain_text (snd ae))"

text \<open>The four header-only objects that \<open>clear_all_csvs\<close> uploads, in its order.\<close>

definition header_only :: "string list \<Rightarrow> csv_file" where
  "header_only cols = \<lparr>header = cols, rows = []\<rparr>"

definition reset_puts :: "(string \<times> csv_file) list" where
  "reset_puts =
     [(multi_result_log_csv, header_only error_columns),
      (not_found_log_csv, header_only error_columns),
      (output_csv_file, header_only price_columns),
      (cleaned_csv_file, header_only price_columns)]"

text \<open>The data rows of the two kinds of files, cell by cell.\<close>

definition price_cells :: "price_row \<Rightarrow> string list" where
  "price_cells r = [SupplierPartNumber r, Partnumber r, Cost r]"

definition not_found_cells :: "string \<Rightarrow> string list" where
  "not_found_cells v = [v, ''No results found'']"

subsection \<open>Auxiliary functions of the proofs\<close>

text \<open>
  The decimal pattern described directly. \<open>price_prefix s\<close> is the longest prefix of
  \<open>s\<close> made of digits, then, if a point and a digit follow, the point and the digits
  after it; \<open>price_rest s\<close> is what remains of \<open>s\<close>. \<open>decimal_shape\<close> says that a
  string is digits, or digits, a point and digits.
\<close>

definition starts_digit :: "string \<Rightarrow> bool" where
  "starts_digit s = (case s of [] \<Rightarrow> False | c # cs \<Rightarrow> is_digit c)"

definition price_rest :: "string \<Rightarrow> string" where
  "price_rest s =
     (case dropWhile is_digit s of
        [] \<Rightarrow> []
      | c # r \<Rightarrow> if c = CHR ''.'' \<and> starts_digit r then dropWhile is_digit r else c # r)"

definition price_prefix :: "string \<Rightarrow> string" where
  "price_prefix s =
     (case dropWhile is_digit s of
        [] \<Rightarrow> takeWhile is_digit s
      | c # r \<Rightarrow>
          if c = CHR ''.'' \<and> starts_digit r
          then takeWhile is_digit s @ c # takeWhile is_digit r
          else takeWhile is_digit s)"

definition first_decimal :: "string \<Rightarrow> string option" where
  "first_decimal s =
     (case dropWhile (\<lambda>c. \<not> is_digit c) s of [] \<Rightarrow> None | t \<Rightarrow> Some (price_prefix t))"

definition decimal_shape :: "string \<Rightarrow> bool" where
  "decimal_shape m =
     (\<exists>ds. ds \<noteq> [] \<and> list_all is_digit ds \<and>
        (m = ds \<or> (\<exists>fs. fs \<noteq> [] \<and> list_all is_digit fs \<and> m = ds @ CHR ''.'' # fs)))"

text \<open>
  The price of one lookup, and the row and the log entry the loop makes of the \<open>k\<close>-th
  HTTP call.
\<close>

definition price_of :: "get_outcome \<Rightarrow> string option" where
  "price_of out = (case fetch_price out of Inl e \<Rightarrow> None | Inr p \<Rightarrow> p)"

definition row_of :: "(nat \<Rightarrow> string \<Rightarrow> get_outcome) \<Rightarrow> nat \<times> part \<Rightarrow> price_row" where
  "row_of get kp =
     \<lparr>SupplierPartNumber = vendor_part_number (snd kp), Partnumber = part_number (snd kp),
      Cost = (case price_of (get (fst kp) (vendor_part_number (snd kp))) of
                None \<Rightarrow> ''Not Found'' | Some p \<Rightarrow> p)\<rparr>"

definition missing :: "(nat \<Rightarrow> string \<Rightarrow> get_outcome) \<Rightarrow> nat \<times> part \<Rightarrow> bool" where
  "missing get kp = (price_of (get (fst kp) (vendor_part_number (snd kp))) = None)"

text \<open>
  A list of uploads made one after the other, up to the first that raises; and the
  uploads that lines 120 to 145 make for given lists.
\<close>

fun put_all :: "env \<Rightarrow> (string \<times> csv_file) list \<Rightarrow> world \<Rightarrow> (py_exn + unit) \<times> world" where
  "put_all e [] w = (Inr (), w)"
| "put_all e (kb # kbs) w = then_do (put_object e (fst kb) (snd kb) w) (\<lambda>u w. put_all e kbs w)"

definition planned_puts ::
  "price_row list \<times> string list \<times> string list \<Rightarrow> (string \<times> csv_file) list" where
  "planned_puts ls =
     (case ls of (raw_results, multi_errors, not_found) \<Rightarrow>
        (if multi_errors \<noteq> []
         then [(multi_result_log_csv,
                \<lparr>header = error_columns,
                 rows = map (\<lambda>v. [v, ''Multiple results found'']) multi_errors\<rparr>)]
         else []) @
        (if not_found \<noteq> []
         then [(not_found_log_csv,
                \<lparr>header = error_columns, rows = map not_found_cells not_found\<rparr>)]
         else []) @
        [(output_csv_file, \<lparr>header = price_columns, rows = map price_cells raw_results\<rparr>),
         (cleaned_csv_file,
          \<lparr>header = price_columns, rows = map price_cells (clean raw_results)\<rparr>)])"

text \<open>
  The PartRecords a run works on, and whether every lookup of a run over \<open>ps\<close>
  returns a price.
\<close>

definition warehouse_parts :: "env \<Rightarrow> part list" where
  "warehouse_parts e =
     (case sf_fetchall e of
        None \<Rightarrow> []
      | Some rs \<Rightarrow> map (\<lambda>r. \<lparr>vendor_part_number = fst r, part_number = snd r\<rparr>) rs)"

definition all_priced :: "env \<Rightarrow> part list \<Rightarrow> bool" where
  "all_priced e ps = list_all (\<lambda>kp. \<not> missing (http_get e) kp) (enumerate 0 ps)"

subsection \<open>Concrete inputs\<close>

definition world0 :: world where
  "world0 = \<lparr>objects = (\<lambda>k. None), put_log = [], put_attempts = 0, open_conns = 0,
             open_cursors = 0\<rparr>"

text \<open>The page of the specification's example.\<close>

definition price_snippet :: node where
  "price_snippet =
     Element ''span'' [(''id'', ''dprice123'')] [Element ''span'' [] [Text ''$42.95 each'']]"

definition price_page :: "node list" where
  "price_page = [price_snippet]"

text \<open>
  A page that holds the example inside other elements, after other text and after a
  script; and a page that holds it after another price:
  \<^verbatim>\<open><span id="dprice1"><span>$1.00</span></span>\<close> followed by the example.
\<close>

definition nested_price_page :: "node list" where
  "nested_price_page =
     [Element ''html'' []
        [Element ''script'' [] [Text ''var n = 7;''],
         Element ''div'' [(''class'', ''listing'')] [Text ''Part 7 of 9'', price_snippet]]]"

definition later_price_page :: "node list" where
  "later_price_page =
     [Element ''span'' [(''id'', ''dprice1'')] [Element ''span'' [] [Text ''$1.00'']],
      price_snippet]"

text \<open>
  A page whose first \<^verbatim>\<open>dprice\<close> element holds its price as plain text and whose
  second one holds it in a nested \<^verbatim>\<open>span\<close>:
  \<^verbatim>\<open><span id="dprice1">$12.50</span><span id="dprice2"><span>$9</span></span>\<close>.
\<close>

definition two_price_page :: "node list" where
  "two_price_page =
     [Element ''span'' [(''id'', ''dprice1'')] [Text ''$12.50''],
      Element ''span'' [(''id'', ''dprice2'')] [Element ''span'' [] [Text ''$9'']]]"

definition ok_response :: "node list \<Rightarrow> get_outcome" where
  "ok_response doc = Returns \<lparr>status_code = 200, soup = doc\<rparr>"

text \<open>
  A web site that times out on the first call of the run and serves the example page
  afterwards, and one that always serves the example page.
\<close>

definition flaky_get :: "nat \<Rightarrow> string \<Rightarrow> get_outcome" where
  "flaky_get k vpn = (if k = 0 then Raises RequestsTimeout else ok_response price_page)"

definition steady_get :: "nat \<Rightarrow> string \<Rightarrow> get_outcome" where
  "steady_get k vpn = ok_response price_page"

definition env_of ::
  "(nat \<Rightarrow> string \<Rightarrow> get_outcome) \<Rightarrow> (string \<times> string) list option \<Rightarrow> env" where
  "env_of get rs =
     \<lparr>s3_put_fails = (\<lambda>n. False), sf_connect_fails = False, sf_execute_fails = False,
      sf_fetchall = rs, http_get = get\<rparr>"

definition same_part_twice :: "part list" where
  "same_part_twice =
     [\<lparr>vendor_part_number = ''A1'', part_number = ''P1''\<rparr>,
      \<lparr>vendor_part_number = ''A1'', part_number = ''P2''\<rparr>]"

definition two_parts :: "part list" where
  "two_parts =
     [\<lparr>vendor_part_number = ''A1'', part_number = ''P1''\<rparr>,
      \<lparr>vendor_part_number = ''B2'', part_number = ''P2''\<rparr>]"

definition three_rows :: "price_row list" where
  "three_rows =
     [\<lparr>SupplierPartNumber = ''A1'', Partnumber = ''P1'', Cost = ''19.99''\<rparr>,
      \<lparr>SupplierPartNumber = ''B2'', Partnumber = ''P2'', Cost = ''Not Found''\<rparr>,
      \<lparr>SupplierPartNumber = ''C3'', Partnumber = ''P3'', Cost = ''5''\<rparr>]"

section \<open>Lemmas about the regular expression\<close>

declare rx_match.simps(5) [simp del]

lemma plus_digit_Nil [simp]: "rx_match (Plus Digit) [] = []"
  by (simp add: rx_match.simps(5))

lemma plus_digit_Cons:
  "rx_match (Plus Digit) (c # cs) = (if is_digit c then rx_match (Plus Digit) cs @ [cs] else [])"
  by (subst rx_match.simps(5)) simp

lemma plus_digit_nondigit: "\<not> starts_digit s \<Longrightarrow> rx_match (Plus Digit) s = []"
  by (cases s) (simp_all add: starts_digit_def plus_digit_Cons)

lemma plus_digit_hd:
  "is_digit c \<Longrightarrow> \<exists>ys. rx_match (Plus Digit) (c # cs) = dropWhile is_digit cs # ys"
proof (induction cs arbitrary: c)
  case Nil
  then show ?case by (simp add: plus_digit_Cons)
next
  case (Cons d ds)
  show ?case
  proof (cases "is_digit d")
    case True
    from Cons.IH [OF True] obtain ys where "rx_match (Plus Digit) (d # ds) = dropWhile is_digit ds # ys" ..
    with Cons.prems True show ?thesis by (simp add: plus_digit_Cons [of c])
  next
    case False
    with Cons.prems show ?thesis by (simp add: plus_digit_Cons)
  qed
qed

lemma set_plus_digit:
  "set (rx_match (Plus Digit) s) = {t. \<exists>ds. ds \<noteq> [] \<and> list_all is_digit ds \<and> s = ds @ t}"
proof (induction s)
  case Nil
  then show ?case by simp
next
  case (Cons c cs)
  show ?case
  proof (cases "is_digit c")
    case True
    have "set (rx_match (Plus Digit) (c # cs)) = insert cs (set (rx_match (Plus Digit) cs))"
      using True by (simp add: plus_digit_Cons)
    also have "\<dots> = {t. \<exists>ds. ds \<noteq> [] \<and> list_all is_digit ds \<and> c # cs = ds @ t}" (is "?L = ?R")
    proof (intro set_eqI iffI)
      fix t assume "t \<in> ?L"
      then consider "t = cs" | ds where "ds \<noteq> []" "list_all is_digit ds" "cs = ds @ t"
        using Cons.IH by auto
      then show "t \<in> ?R"
      proof cases
        case 1
        then have "[c] \<noteq> [] \<and> list_all is_digit [c] \<and> c # cs = [c] @ t" using True by simp
        then show ?thesis by blast
      next
        case 2
        then have "c # ds \<noteq> [] \<and> list_all is_digit (c # ds) \<and> c # cs = (c # ds) @ t" using True by simp
        then show ?thesis by blast
      qed
    next
      fix t assume "t \<in> ?R"
      then obtain ds where ds: "ds \<noteq> []" "list_all is_digit ds" "c # cs = ds @ t" by blast
      then obtain es where es: "ds = c # es" by (cases ds) auto
      show "t \<in> ?L"
      proof (cases es)
        case Nil
        with ds es show ?thesis by simp
      next
        case (Cons e es')
        with ds es have "es \<noteq> [] \<and> list_all is_digit es \<and> cs = es @ t" by simp
        then show ?thesis using Cons.IH by blast
      qed
    qed
    finally show ?thesis .
  next
    case False
    have "\<And>ds t. ds \<noteq> [] \<Longrightarrow> list_all is_digit ds \<Longrightarrow> c # cs = ds @ t \<Longrightarrow> False"
      using False by (case_tac ds) auto
    then show ?thesis using False by (auto simp add: plus_digit_Cons)
  qed
qed

lemma is_digit_dot [simp]: "\<not> is_digit CHR ''.''"
  by (simp add: is_digit_def)

lemma opt_frac_hd:
  "\<exists>ys. rx_match (Opt (Seq (Lit CHR ''.'') (Plus Digit))) r =
     (case r of [] \<Rightarrow> []
      | c # r' \<Rightarrow> if c = CHR ''.'' \<and> starts_digit r' then dropWhile is_digit r' else c # r') # ys"
proof (cases r)
  case Nil
  then show ?thesis by simp
next
  case (Cons c r')
  show ?thesis
  proof (cases "c = CHR ''.'' \<and> starts_digit r'")
    case True
    then obtain d r'' where r': "r' = d # r''" "is_digit d"
      by (cases r') (auto simp: starts_digit_def)
    from plus_digit_hd [OF r'(2), of r''] obtain ys
      where "rx_match (Plus Digit) (d # r'') = dropWhile is_digit r'' # ys" ..
    with Cons True r' show ?thesis by simp
  next
    case False
    with Cons show ?thesis by (auto simp: plus_digit_nondigit)
  qed
qed

lemma price_rx_hd:
  assumes "starts_digit s"
  shows "\<exists>ys. rx_match price_rx s = price_rest s # ys"
proof -
  from assms obtain c cs where s: "s = c # cs" "is_digit c"
    by (cases s) (auto simp: starts_digit_def)
  from plus_digit_hd [OF s(2), of cs] obtain ys
    where ys: "rx_match (Plus Digit) s = dropWhile is_digit cs # ys" using s by auto
  have dw: "dropWhile is_digit s = dropWhile is_digit cs" using s by simp
  from opt_frac_hd [of "dropWhile is_digit cs"] obtain zs
    where "rx_match (Opt (Seq (Lit CHR ''.'') (Plus Digit))) (dropWhile is_digit cs) =
             price_rest s # zs"
    unfolding price_rest_def dw by blast
  with ys show ?thesis by (simp add: price_rx_def)
qed

lemma price_rx_nondigit: "\<not> starts_digit s \<Longrightarrow> rx_match price_rx s = []"
  by (simp add: price_rx_def plus_digit_nondigit)

lemma price_split: "price_prefix s @ price_rest s = s"
proof (cases "dropWhile is_digit s")
  case Nil
  have "takeWhile is_digit s @ dropWhile is_digit s = s" by (rule takeWhile_dropWhile_id)
  then show ?thesis unfolding price_prefix_def price_rest_def Nil by simp
next
  case (Cons c r)
  have s: "takeWhile is_digit s @ c # r = s"
    using takeWhile_dropWhile_id [of is_digit s] unfolding Cons .
  have r: "takeWhile is_digit r @ dropWhile is_digit r = r" by (rule takeWhile_dropWhile_id)
  show ?thesis
  proof (cases "c = CHR ''.'' \<and> starts_digit r")
    case True
    then have "price_prefix s @ price_rest s =
        takeWhile is_digit s @ c # (takeWhile is_digit r @ dropWhile is_digit r)"
      unfolding price_prefix_def price_rest_def Cons by simp
    with s r show ?thesis by simp
  next
    case False
    then have "price_prefix s @ price_rest s = takeWhile is_digit s @ c # r"
      unfolding price_prefix_def price_rest_def Cons by auto
    with s show ?thesis by simp
  qed
qed

lemma take_price: "take (length s - length (price_rest s)) s = price_prefix s"
proof -
  have "length s = length (price_prefix s) + length (price_rest s)"
    using arg_cong [OF price_split [of s], of length] by simp
  then have "take (length s - length (price_rest s)) (price_prefix s @ price_rest s) =
      price_prefix s" by simp
  then show ?thesis by (simp only: price_split)
qed

lemma re_search_price_rx: "re_search price_rx s = first_decimal s"
  unfolding first_decimal_def
proof (induction s)
  case Nil
  then show ?case by (simp add: price_rx_nondigit starts_digit_def)
next
  case (Cons c cs)
  show ?case
  proof (cases "is_digit c")
    case True
    then have "starts_digit (c # cs)" by (simp add: starts_digit_def)
    from price_rx_hd [OF this] obtain ys
      where "rx_match price_rx (c # cs) = price_rest (c # cs) # ys" ..
    with True take_price [of "c # cs"] show ?thesis by simp
  next
    case False
    then have "rx_match price_rx (c # cs) = []"
      by (simp add: price_rx_nondigit starts_digit_def)
    with False Cons.IH show ?thesis by simp
  qed
qed

lemma set_lit: "set (rx_match (Lit a) s) = {t. s = a # t}"
  by (cases s) auto

lemma full_match_price_rx: "full_match price_rx m = decimal_shape m"
proof -
  have "full_match price_rx m =
      (\<exists>t \<in> set (rx_match (Plus Digit) m).
         t = [] \<or> (\<exists>u \<in> set (rx_match (Lit CHR ''.'') t). [] \<in> set (rx_match (Plus Digit) u)))"
    by (auto simp: full_match_def price_rx_def)
  also have "\<dots> = decimal_shape m"
    unfolding set_plus_digit set_lit decimal_shape_def by auto
  finally show ?thesis .
qed

lemma takeWhile_digits: "list_all is_digit ds \<Longrightarrow> takeWhile is_digit (ds @ CHR ''.'' # r) = ds"
  by (induction ds) auto

lemma dropWhile_digits: "list_all is_digit ds \<Longrightarrow> dropWhile is_digit (ds @ CHR ''.'' # r) = CHR ''.'' # r"
  by (induction ds) auto

lemma dropWhile_all: "list_all is_digit ds \<Longrightarrow> dropWhile is_digit ds = []"
  by (induction ds) auto

lemma decimal_shape_rest: "decimal_shape m \<Longrightarrow> price_rest m = []"
  unfolding decimal_shape_def
proof (elim exE conjE disjE)
  fix ds assume "list_all is_digit ds" "m = ds"
  then show ?thesis by (simp add: price_rest_def dropWhile_all)
next
  fix ds fs assume a: "ds \<noteq> []" "list_all is_digit ds" "fs \<noteq> []" "list_all is_digit fs" "m = ds @ CHR ''.'' # fs"
  then have "starts_digit fs" by (cases fs) (auto simp: starts_digit_def)
  with a show ?thesis by (simp add: price_rest_def dropWhile_digits dropWhile_all)
qed

lemma decimal_shape_starts: "decimal_shape m \<Longrightarrow> starts_digit m"
  unfolding decimal_shape_def starts_digit_def
  by (auto split: list.splits simp: neq_Nil_conv)

lemma starts_digit_takeWhile:
  "starts_digit s \<Longrightarrow> takeWhile is_digit s \<noteq> [] \<and> list_all is_digit (takeWhile is_digit s)"
  by (cases s) (auto simp: starts_digit_def list_all_iff dest: set_takeWhileD)

lemma price_prefix_shape: "starts_digit s \<Longrightarrow> decimal_shape (price_prefix s)"
proof -
  assume sd: "starts_digit s"
  note d = starts_digit_takeWhile [OF sd]
  show ?thesis
  proof (cases "dropWhile is_digit s")
    case Nil
    then have "price_prefix s = takeWhile is_digit s" unfolding price_prefix_def Nil by simp
    with d show ?thesis unfolding decimal_shape_def by blast
  next
    case (Cons c r)
    show ?thesis
    proof (cases "c = CHR ''.'' \<and> starts_digit r")
      case True
      then have "price_prefix s = takeWhile is_digit s @ CHR ''.'' # takeWhile is_digit r"
        unfolding price_prefix_def Cons by simp
      with d starts_digit_takeWhile [of r] True show ?thesis unfolding decimal_shape_def by blast
    next
      case False
      then have "price_prefix s = takeWhile is_digit s" unfolding price_prefix_def Cons by auto
      with d show ?thesis unfolding decimal_shape_def by blast
    qed
  qed
qed

lemma dropWhile_nondigit_starts:
  "dropWhile (\<lambda>c. \<not> is_digit c) s = c # t \<Longrightarrow> starts_digit (c # t)"
  using hd_dropWhile [of "\<lambda>c. \<not> is_digit c" s] by (simp add: starts_digit_def)

lemma re_search_Some_shape: "re_search price_rx s = Some m \<Longrightarrow> decimal_shape m"
  by (auto simp: re_search_price_rx first_decimal_def split: list.splits
      dest!: dropWhile_nondigit_starts intro: price_prefix_shape)

lemma re_search_None_iff: "re_search price_rx s = None \<longleftrightarrow> \<not> list_ex is_digit s"
proof (cases "dropWhile (\<lambda>c. \<not> is_digit c) s")
  case Nil
  then have "\<forall>x \<in> set s. \<not> is_digit x" by (simp add: dropWhile_eq_Nil_conv)
  then show ?thesis unfolding re_search_price_rx first_decimal_def Nil by (simp add: list_ex_iff)
next
  case (Cons c t)
  then have "\<not> (\<forall>x \<in> set s. \<not> is_digit x)"
    using dropWhile_eq_Nil_conv [of "\<lambda>c. \<not> is_digit c" s] by simp
  then show ?thesis unfolding re_search_price_rx first_decimal_def Cons by (simp add: list_ex_iff)
qed

lemma re_search_decimal: "decimal_shape m \<Longrightarrow> re_search price_rx m = Some m"
proof -
  assume d: "decimal_shape m"
  then have sd: "starts_digit m" by (rule decimal_shape_starts)
  then obtain c cs where m: "m = c # cs" "is_digit c"
    by (cases m) (auto simp: starts_digit_def)
  have p: "price_prefix m = m"
    using price_split [of m] decimal_shape_rest [OF d] by simp
  have dw: "dropWhile (\<lambda>c. \<not> is_digit c) m = c # cs" using m by simp
  show ?thesis unfolding re_search_price_rx first_decimal_def dw using p m by simp
qed

declare re_search.simps [simp del]

lemma full_match_re_search: "full_match price_rx m \<Longrightarrow> re_search price_rx m = Some m"
  by (simp add: full_match_price_rx re_search_decimal)

lemma re_search_full_match: "re_search price_rx s = Some m \<Longrightarrow> full_match price_rx m"
  by (simp add: full_match_price_rx re_search_Some_shape)

lemma re_search_not_found: "re_search price_rx ''Not Found'' = None"
  by (simp add: re_search_None_iff is_digit_def)

lemma not_found_no_match: "\<not> full_match price_rx ''Not Found''"
  using full_match_re_search [of "''Not Found''"] re_search_not_found by auto

lemma takeWhile_le_prefix: "length (takeWhile is_digit s) \<le> length (price_prefix s)"
  by (simp add: price_prefix_def split: list.splits)

lemma price_prefix_longest:
  assumes "decimal_shape m'"
  shows "length m' \<le> length (price_prefix (m' @ v'))"
proof -
  from assms obtain ds where ds: "ds \<noteq> []" "list_all is_digit ds"
    and m': "m' = ds \<or> (\<exists>fs. fs \<noteq> [] \<and> list_all is_digit fs \<and> m' = ds @ CHR ''.'' # fs)"
    unfolding decimal_shape_def by blast
  from m' show ?thesis
  proof
    assume "m' = ds"
    with ds have "takeWhile is_digit (m' @ v') = m' @ takeWhile is_digit v'"
      by (simp add: takeWhile_append2 list_all_iff)
    with takeWhile_le_prefix [of "m' @ v'"] show ?thesis by simp
  next
    assume "\<exists>fs. fs \<noteq> [] \<and> list_all is_digit fs \<and> m' = ds @ CHR ''.'' # fs"
    then obtain fs where fs: "fs \<noteq> []" "list_all is_digit fs" "m' = ds @ CHR ''.'' # fs"
      by blast
    have t: "m' @ v' = ds @ CHR ''.'' # (fs @ v')" using fs by simp
    have sd: "starts_digit (fs @ v')" using fs by (cases fs) (auto simp: starts_digit_def)
    have tw: "takeWhile is_digit (fs @ v') = fs @ takeWhile is_digit v'"
      using fs by (simp add: takeWhile_append2 list_all_iff)
    have "price_prefix (m' @ v') = ds @ CHR ''.'' # takeWhile is_digit (fs @ v')"
      unfolding t price_prefix_def
      by (simp add: takeWhile_digits [OF ds(2)] dropWhile_digits [OF ds(2)] sd)
    with tw fs show ?thesis by simp
  qed
qed

lemma first_decimal_cases:
  "case first_decimal s of
     None \<Rightarrow> \<not> list_ex is_digit s
   | Some m \<Rightarrow>
       (\<exists>u v. s = u @ m @ v \<and> \<not> list_ex is_digit u \<and> full_match price_rx m \<and>
          (\<forall>m' v'. m' @ v' = m @ v \<and> full_match price_rx m' \<longrightarrow> length m' \<le> length m))"
proof (cases "first_decimal s")
  case None
  then show ?thesis using re_search_None_iff [of s] by (simp add: re_search_price_rx)
next
  case (Some m)
  let ?u = "takeWhile (\<lambda>c. \<not> is_digit c) s"
  let ?t = "dropWhile (\<lambda>c. \<not> is_digit c) s"
  from Some have m: "m = price_prefix ?t"
    by (auto simp: first_decimal_def split: list.splits)
  have "s = ?u @ ?t" by simp
  also have t: "?t = m @ price_rest ?t" unfolding m by (simp only: price_split)
  finally have s: "s = ?u @ m @ price_rest ?t" .
  have u: "\<not> list_ex is_digit ?u" by (auto simp: list_ex_iff dest: set_takeWhileD)
  have fm: "full_match price_rx m"
    using Some by (simp add: re_search_full_match re_search_price_rx)
  have "length m' \<le> length m" if "m' @ v' = m @ price_rest ?t" "full_match price_rx m'"
    for m' v'
  proof -
    from that(2) have "decimal_shape m'" by (simp add: full_match_price_rx)
    from price_prefix_longest [OF this, of v'] that(1) t show ?thesis
      unfolding m by simp
  qed
  with s u fm have "\<exists>u v. s = u @ m @ v \<and> \<not> list_ex is_digit u \<and> full_match price_rx m \<and>
      (\<forall>m' v'. m' @ v' = m @ v \<and> full_match price_rx m' \<longrightarrow> length m' \<le> length m)"
    by blast
  with Some show ?thesis by simp
qed

section \<open>The price fetcher\<close>

lemma find_append_cases:
  "find P (xs @ ys) = (case find P xs of None \<Rightarrow> find P ys | Some x \<Rightarrow> Some x)"
  by (induction xs) simp_all

lemma find_concat_map:
  "find P (concat (map g xs)) =
     (case filter (\<lambda>r. r \<noteq> None) (map (\<lambda>x. find P (g x)) xs) of [] \<Rightarrow> None | r # _ \<Rightarrow> r)"
  by (induction xs) (auto simp: find_append_cases split: option.splits)

lemma select_one_find: "select_one doc = find css_match (soup_elements doc)"
proof -
  have "(case filter P xs of [] \<Rightarrow> None | x # _ \<Rightarrow> Some x) = find P xs"
    for P :: "'a \<Rightarrow> bool" and xs
    by (induction xs) simp_all
  then show ?thesis by (simp add: select_one_def)
qed

lemma is_dprice_span_alt:
  "is_dprice_span (Element t as cs) = (t = ''span'' \<and> has_dprice_id (Element t as cs))"
  by (simp add: is_dprice_span_def has_dprice_id_def)

lemma find_elements:
  "find css_match (elements anc n) = first_nested_span (list_ex is_dprice_span anc) anc n"
proof (induction n arbitrary: anc)
  case (Text s)
  show ?case by simp
next
  case (Element t as cs)
  let ?E = "Element t as cs"
  show ?case
  proof (cases "list_ex is_dprice_span anc \<and> t = ''span''")
    case True
    then show ?thesis by (simp add: css_match_def)
  next
    case False
    have inside: "list_ex is_dprice_span (?E # anc) =
        (list_ex is_dprice_span anc \<or> (t = ''span'' \<and> has_dprice_id ?E))"
      by (auto simp: is_dprice_span_alt)
    let ?in = "list_ex is_dprice_span anc \<or> (t = ''span'' \<and> has_dprice_id ?E)"
    have meq: "map (\<lambda>c. find css_match (elements (?E # anc) c)) cs =
        map (first_nested_span ?in (?E # anc)) cs"
      by (rule map_cong [OF refl]) (simp only: Element.IH inside)
    from False have "\<not> css_match (anc, ?E)" by (auto simp: css_match_def)
    then have "find css_match (elements anc ?E) =
        find css_match (concat (map (elements (?E # anc)) cs))" by simp
    also have "\<dots> =
        (case filter (\<lambda>r. r \<noteq> None) (map (\<lambda>c. find css_match (elements (?E # anc) c)) cs) of
           [] \<Rightarrow> None | r # _ \<Rightarrow> r)"
      by (rule find_concat_map)
    also have "\<dots> =
        (case filter (\<lambda>r. r \<noteq> None) (map (first_nested_span ?in (?E # anc)) cs) of
           [] \<Rightarrow> None | r # _ \<Rightarrow> r)"
      by (simp only: meq)
    also have "\<dots> = first_nested_span (list_ex is_dprice_span anc) anc ?E"
      by (simp only: first_nested_span.simps False if_False)
    finally show ?thesis .
  qed
qed

lemma select_one_first_price_span: "select_one doc = first_price_span doc"
  by (simp add: select_one_find soup_elements_def find_concat_map find_elements
      first_price_span_def)

lemma all_strings_special:
  "c \<noteq> None \<Longrightarrow> filter (\<lambda>ks. fst ks = None) (all_strings c n) = []"
proof (induction n arbitrary: c)
  case (Text s)
  then show ?case by simp
next
  case (Element t as cs)
  then show ?case by (auto simp: filter_concat filter_empty_conv)
qed

lemma all_strings_plain:
  "concat (map snd (filter (\<lambda>ks. fst ks = None) (all_strings None n))) = plain_text n"
proof (induction n)
  case (Text s)
  show ?case by simp
next
  case (Element t as cs)
  show ?case
  proof (cases "t \<in> set string_containers")
    case True
    have "filter (\<lambda>ks. fst ks = None) (concat (map (all_strings (Some t)) cs)) = []"
      by (auto simp: filter_concat all_strings_special)
    with True show ?thesis by simp
  next
    case False
    have "map (\<lambda>c. concat (map snd (filter (\<lambda>ks. fst ks = None) (all_strings None c)))) cs =
        map plain_text cs"
      by (rule map_cong [OF refl]) (rule Element.IH)
    then have "concat (map (\<lambda>c. concat (map snd (filter (\<lambda>ks. fst ks = None)
        (all_strings None c)))) cs) = concat (map plain_text cs)" by (rule arg_cong)
    moreover have "concat (map snd (filter P (concat (map g cs)))) =
        concat (map (\<lambda>c. concat (map snd (filter P (g c)))) cs)"
      for P :: "string option \<times> string \<Rightarrow> bool" and g :: "node \<Rightarrow> (string option \<times> string) list"
      by (induction cs) simp_all
    ultimately show ?thesis using False by (simp del: filter_concat)
  qed
qed

lemma container_of_None:
  "(container_of anc = None) = (\<not> list_ex (\<lambda>a. tag_name a \<in> set string_containers) anc)"
  by (induction anc) auto

lemma get_text_counted:
  assumes "tag_name (snd ae) \<notin> set string_containers"
  shows "get_text ae = counted_text ae"
proof (cases "container_of (fst ae)")
  case None
  then show ?thesis
    using assms container_of_None [of "fst ae"]
    by (simp add: get_text_def counted_text_def interesting_string_types_def all_strings_plain)
next
  case (Some t)
  then have "filter (\<lambda>ks. fst ks = None) (all_strings (container_of (fst ae)) (snd ae)) = []"
    by (simp add: all_strings_special)
  then show ?thesis
    using assms Some container_of_None [of "fst ae"]
    by (simp add: get_text_def counted_text_def interesting_string_types_def)
qed

lemma find_css_match_span: "find css_match xs = Some ae \<Longrightarrow> tag_name (snd ae) = ''span''"
  by (auto simp: find_Some_iff css_match_def)

lemma span_no_container: "''span'' \<notin> set string_containers"
  by (simp add: string_containers_def)

lemma fetch_price_eq:
  assumes "try_get out = Inr resp"
  shows "fetch_price out =
     (case first_price_span (soup resp) of
        None \<Rightarrow> Inr None
      | Some ae \<Rightarrow> Inr (first_decimal (counted_text ae)))"
proof (cases "first_price_span (soup resp)")
  case None
  with assms show ?thesis by (simp add: fetch_price_def select_one_first_price_span)
next
  case (Some ae)
  then have "find css_match (soup_elements (soup resp)) = Some ae"
    by (simp add: select_one_first_price_span [symmetric] select_one_find)
  then have "tag_name (snd ae) = ''span''" by (rule find_css_match_span)
  then have "get_text ae = counted_text ae"
    using span_no_container by (intro get_text_counted) simp
  with assms Some show ?thesis
    by (simp add: fetch_price_def select_one_first_price_span re_search_price_rx)
qed


lemma concat_map_split:
  "concat (map f xs) = pre @ x # post \<Longrightarrow>
   \<exists>c p1 p2 rest. c \<in> set xs \<and> f c = p1 @ x # p2 \<and> post = p2 @ rest"
proof (induction xs arbitrary: pre)
  case Nil
  then show ?case by simp
next
  case (Cons a xs)
  from Cons.prems have "f a @ concat (map f xs) = pre @ x # post" by simp
  then consider us where "f a = pre @ us" "us @ concat (map f xs) = x # post"
    | us where "f a @ us = pre" "concat (map f xs) = us @ x # post"
    by (auto simp: append_eq_append_conv2)
  then show ?case
  proof cases
    case 1
    show ?thesis
    proof (cases us)
      case Nil
      with 1 have "concat (map f xs) = [] @ x # post" by simp
      from Cons.IH [OF this] show ?thesis by auto
    next
      case (Cons u us')
      with 1 have "f a = pre @ x # us'" "post = us' @ concat (map f xs)" by simp_all
      then show ?thesis by auto
    qed
  next
    case 2
    from Cons.IH [OF 2(2)] show ?thesis by auto
  qed
qed

lemma elements_followed:
  "elements a0 m = pre @ (anc, n) # post \<Longrightarrow> \<exists>rest. post = nested_elements (anc, n) @ rest"
proof (induction m arbitrary: a0 pre post)
  case (Text s)
  then show ?case by simp
next
  case (Element t as cs)
  let ?E = "Element t as cs"
  from Element.prems
  have e: "(a0, ?E) # concat (map (elements (?E # a0)) cs) = pre @ (anc, n) # post" by simp
  show ?case
  proof (cases pre)
    case Nil
    with e have "anc = a0" "n = ?E" "post = concat (map (elements (?E # a0)) cs)" by auto
    then show ?thesis by (simp add: nested_elements_def)
  next
    case (Cons q pre')
    with e have "concat (map (elements (?E # a0)) cs) = pre' @ (anc, n) # post" by simp
    from concat_map_split [OF this] obtain c p1 p2 rest
      where c: "c \<in> set cs" "elements (?E # a0) c = p1 @ (anc, n) # p2" "post = p2 @ rest"
      by blast
    from Element.IH [OF c(1) c(2)] obtain rest' where "p2 = nested_elements (anc, n) @ rest'" ..
    with c(3) show ?thesis by simp
  qed
qed

lemma soup_elements_followed:
  assumes "soup_elements doc = pre @ (anc, n) # post"
  shows "\<exists>rest. post = nested_elements (anc, n) @ rest"
proof -
  from concat_map_split [OF assms [unfolded soup_elements_def]] obtain c p1 p2 rest
    where c: "elements [] c = p1 @ (anc, n) # p2" "post = p2 @ rest" by blast
  from elements_followed [OF c(1)] obtain rest' where "p2 = nested_elements (anc, n) @ rest'" ..
  with c(2) show ?thesis by simp
qed

lemmas eval_defs =
  fetch_price_def try_get_def raise_for_status_def select_one_def soup_elements_def
  css_match_def is_dprice_span_def starts_with_def re_search_price_rx first_decimal_def
  price_prefix_def starts_digit_def is_digit_def ok_response_def get_text_def
  interesting_string_types_def string_containers_def price_snippet_def

lemma snippet_text:
  assumes "\<not> list_ex (\<lambda>a. tag_name a \<in> set string_containers) anc"
  shows "get_text (anc, price_snippet) = ''$42.95 each''"
    and "get_text (price_snippet # anc, Element ''span'' [] [Text ''$42.95 each'']) =
          ''$42.95 each''"
proof -
  from assms have c: "container_of anc = None" by (simp add: container_of_None)
  have tn: "tag_name price_snippet = ''span''" by (simp add: price_snippet_def)
  have c': "container_of (price_snippet # anc) = None"
    by (simp add: string_containers_def tn c)
  show "get_text (anc, price_snippet) = ''$42.95 each''"
    by (simp add: get_text_def c interesting_string_types_def price_snippet_def
        string_containers_def)
  show "get_text (price_snippet # anc, Element ''span'' [] [Text ''$42.95 each'']) =
          ''$42.95 each''"
    by (simp only: get_text_def fst_conv snd_conv c')
      (simp add: interesting_string_types_def string_containers_def)
qed

lemma first_decimal_example: "first_decimal ''$42.95 each'' = Some ''42.95''"
  by (simp add: first_decimal_def price_prefix_def starts_digit_def is_digit_def)

lemma fetch_price_contains:
  assumes t: "try_get out = Inr resp"
    and doc: "soup_elements (soup resp) = pre @ (anc, price_snippet) # post"
    and pre: "\<not> list_ex css_match pre"
    and anc: "\<not> list_ex (\<lambda>a. tag_name a \<in> set string_containers) anc"
  shows "fetch_price out = Inr (Some ''42.95'')"
proof -
  let ?inner = "Element ''span'' [] [Text ''$42.95 each'']"
  have ne: "nested_elements (anc, price_snippet) = [(price_snippet # anc, ?inner)]"
    by (simp add: nested_elements_def price_snippet_def)
  from soup_elements_followed [OF doc] ne obtain rest
    where post: "post = (price_snippet # anc, ?inner) # rest" by auto
  have m: "css_match (price_snippet # anc, ?inner)"
    by (simp add: css_match_def is_dprice_span_def starts_with_def price_snippet_def)
  from pre have np: "find css_match pre = None" by (simp add: find_None_iff list_ex_iff)
  have "find css_match (soup_elements (soup resp)) =
      (if css_match (anc, price_snippet) then Some (anc, price_snippet)
       else Some (price_snippet # anc, ?inner))"
    unfolding doc post using m np by (simp add: find_append_cases)
  then have "select_one (soup resp) = Some (anc, price_snippet) \<or>
      select_one (soup resp) = Some (price_snippet # anc, ?inner)"
    by (simp add: select_one_find split: if_splits)
  then show ?thesis
    using t snippet_text [OF anc]
    by (auto simp: fetch_price_def re_search_price_rx first_decimal_example)
qed


lemma fetch_price_Inr: "fetch_price out = Inr (price_of out)"
  by (simp add: price_of_def fetch_price_def split: sum.splits option.splits)

lemma price_of_full_match: "price_of out = Some p \<Longrightarrow> full_match price_rx p"
  by (auto simp: price_of_def fetch_price_def re_search_full_match
      split: sum.splits option.splits)

lemma fetch_price_page: "fetch_price (ok_response price_page) = Inr (Some ''42.95'')"
  by (simp add: eval_defs price_page_def)

lemma fetch_price_timeout: "fetch_price (Raises RequestsTimeout) = Inr None"
  by (simp add: eval_defs)




lemma is_dprice_span_iff: "is_dprice_span n = (tag_name n = ''span'' \<and> has_dprice_id n)"
  by (simp add: is_dprice_span_def has_dprice_id_def)

lemma css_match_iff:
  "css_match ae =
     (tag_name (snd ae) = ''span'' \<and>
      list_ex (\<lambda>a. tag_name a = ''span'' \<and> has_dprice_id a) (fst ae))"
  by (simp add: css_match_def is_dprice_span_iff [abs_def])

text \<open>
  Claim C4, amended. Take a response that passed the status check. If its parsed body
  contains the example \<^verbatim>\<open><span id="dprice123"><span>$42.95 each</span></span>\<close>, not
  inside a \<^verbatim>\<open>script\<close>, \<^verbatim>\<open>style\<close>, \<^verbatim>\<open>template\<close>, \<^verbatim>\<open>rt\<close> or \<^verbatim>\<open>rp\<close>
  element and with no \<^verbatim>\<open>span\<close> inside a \<^verbatim>\<open>dprice\<close> span before it in the
  document, \<open>fetch_price\<close> returns 42.95. In general it takes the first \<^verbatim>\<open>span\<close>, in
  document order, that lies inside a \<^verbatim>\<open>span\<close> whose id starts with \<^verbatim>\<open>dprice\<close>.
  Without such an element it returns \<^verbatim>\<open>None\<close>. Otherwise it returns \<^verbatim>\<open>None\<close> when
  the text of the element (its strings outside \<^verbatim>\<open>script\<close>, \<^verbatim>\<open>style\<close>,
  \<^verbatim>\<open>template\<close>, \<^verbatim>\<open>rt\<close> and \<^verbatim>\<open>rp\<close>) holds no digit, and else the leftmost and
  longest part of that text that matches the decimal pattern.
\<close>

theorem fetch_price_first_nested_span:
  "try_get out = Inr resp \<longrightarrow>
     (soup_elements (soup resp) = pre @ (anc, price_snippet) # post \<and>
      list_all (\<lambda>ae. \<not> (tag_name (snd ae) = ''span'' \<and>
                  list_ex (\<lambda>a. tag_name a = ''span'' \<and> has_dprice_id a) (fst ae))) pre \<and>
      \<not> list_ex (\<lambda>a. tag_name a \<in> set string_containers) anc \<longrightarrow>
        fetch_price out = Inr (Some ''42.95'')) \<and>
     (case first_price_span (soup resp) of
        None \<Rightarrow> fetch_price out = Inr None
      | Some ae \<Rightarrow>
          (case fetch_price out of
             Inl x \<Rightarrow> False
           | Inr None \<Rightarrow> \<not> list_ex is_digit (counted_text ae)
           | Inr (Some m) \<Rightarrow>
               (\<exists>u v. counted_text ae = u @ m @ v \<and> \<not> list_ex is_digit u \<and>
                  full_match price_rx m \<and>
                  (\<forall>m' v'. m' @ v' = m @ v \<and> full_match price_rx m' \<longrightarrow>
                     length m' \<le> length m))))"
proof (intro conjI impI)
  assume t: "try_get out = Inr resp"
  assume "soup_elements (soup resp) = pre @ (anc, price_snippet) # post \<and>
      list_all (\<lambda>ae. \<not> (tag_name (snd ae) = ''span'' \<and>
                  list_ex (\<lambda>a. tag_name a = ''span'' \<and> has_dprice_id a) (fst ae))) pre \<and>
      \<not> list_ex (\<lambda>a. tag_name a \<in> set string_containers) anc"
  then have doc: "soup_elements (soup resp) = pre @ (anc, price_snippet) # post"
    and pre: "\<not> list_ex css_match pre"
    and anc: "\<not> list_ex (\<lambda>a. tag_name a \<in> set string_containers) anc"
    by (simp_all add: list_all_iff list_ex_iff css_match_iff)
  show "fetch_price out = Inr (Some ''42.95'')"
    by (rule fetch_price_contains [OF t doc pre anc])
next
  assume t: "try_get out = Inr resp"
  show "case first_price_span (soup resp) of
        None \<Rightarrow> fetch_price out = Inr None
      | Some ae \<Rightarrow>
          (case fetch_price out of
             Inl x \<Rightarrow> False
           | Inr None \<Rightarrow> \<not> list_ex is_digit (counted_text ae)
           | Inr (Some m) \<Rightarrow>
               (\<exists>u v. counted_text ae = u @ m @ v \<and> \<not> list_ex is_digit u \<and>
                  full_match price_rx m \<and>
                  (\<forall>m' v'. m' @ v' = m @ v \<and> full_match price_rx m' \<longrightarrow>
                     length m' \<le> length m)))"
  proof (cases "first_price_span (soup resp)")
    case None
    with fetch_price_eq [OF t] show ?thesis by simp
  next
    case (Some ae)
    with fetch_price_eq [OF t]
    have f: "fetch_price out = Inr (first_decimal (counted_text ae))" by simp
    from first_decimal_cases [of "counted_text ae"] show ?thesis
      unfolding Some f by (simp split: option.splits)
  qed
qed

lemma soup_elements_nested_page:
  "soup_elements nested_price_page =
     [([], Element ''html'' []
        [Element ''script'' [] [Text ''var n = 7;''],
         Element ''div'' [(''class'', ''listing'')] [Text ''Part 7 of 9'', price_snippet]]),
      ([Element ''html'' []
        [Element ''script'' [] [Text ''var n = 7;''],
         Element ''div'' [(''class'', ''listing'')] [Text ''Part 7 of 9'', price_snippet]]],
       Element ''script'' [] [Text ''var n = 7;'']),
      ([Element ''html'' []
        [Element ''script'' [] [Text ''var n = 7;''],
         Element ''div'' [(''class'', ''listing'')] [Text ''Part 7 of 9'', price_snippet]]],
       Element ''div'' [(''class'', ''listing'')] [Text ''Part 7 of 9'', price_snippet])] @
     ([Element ''div'' [(''class'', ''listing'')] [Text ''Part 7 of 9'', price_snippet],
       Element ''html'' []
        [Element ''script'' [] [Text ''var n = 7;''],
         Element ''div'' [(''class'', ''listing'')] [Text ''Part 7 of 9'', price_snippet]]],
      price_snippet) #
     [([price_snippet,
        Element ''div'' [(''class'', ''listing'')] [Text ''Part 7 of 9'', price_snippet],
        Element ''html'' []
         [Element ''script'' [] [Text ''var n = 7;''],
          Element ''div'' [(''class'', ''listing'')] [Text ''Part 7 of 9'', price_snippet]]],
       Element ''span'' [] [Text ''$42.95 each''])]"
  by (simp add: soup_elements_def nested_price_page_def) (simp add: price_snippet_def)

theorem fetch_price_first_nested_span_witness:
  "fetch_price (ok_response nested_price_page) = Inr (Some ''42.95'') \<and>
   fetch_price (ok_response price_page) = Inr (Some ''42.95'') \<and>
   try_get (ok_response price_page) = Inr \<lparr>status_code = 200, soup = price_page\<rparr> \<and>
   first_price_span price_page =
     Some ([price_snippet], Element ''span'' [] [Text ''$42.95 each'']) \<and>
   (\<exists>u v. ''$42.95 each'' = u @ ''42.95'' @ v \<and> \<not> list_ex is_digit u \<and>
      full_match price_rx ''42.95'')"
proof -
  have t: "try_get (ok_response d) = Inr \<lparr>status_code = 200, soup = d\<rparr>" for d
    by (simp add: try_get_def raise_for_status_def ok_response_def)
  have n: "fetch_price (ok_response nested_price_page) = Inr (Some ''42.95'')"
    apply (rule fetch_price_first_nested_span [THEN mp, OF t, THEN conjunct1, THEN mp])
    apply (simp only: response.select_convs)
    apply (intro conjI)
      apply (rule soup_elements_nested_page)
     apply (simp add: has_dprice_id_def)
    apply (simp add: string_containers_def)
    done
  have e: "soup_elements price_page = [] @ ([], price_snippet) # 
      [([price_snippet], Element ''span'' [] [Text ''$42.95 each''])]"
    by (simp add: soup_elements_def price_page_def) (simp add: price_snippet_def)
  have p: "fetch_price (ok_response price_page) = Inr (Some ''42.95'')"
    apply (rule fetch_price_first_nested_span [THEN mp, OF t, THEN conjunct1, THEN mp])
    apply (simp only: response.select_convs)
    apply (intro conjI)
      apply (rule e)
     apply simp
    apply simp
    done
  have f: "first_price_span price_page =
     Some ([price_snippet], Element ''span'' [] [Text ''$42.95 each''])"
    by (simp add: first_price_span_def price_page_def) 
      (simp add: price_snippet_def has_dprice_id_def starts_with_def)
  have c: "counted_text ([price_snippet], Element ''span'' [] [Text ''$42.95 each'']) =
      ''$42.95 each''"
    by (simp add: counted_text_def string_containers_def price_snippet_def)
  have g: "\<exists>u v. ''$42.95 each'' = u @ ''42.95'' @ v \<and> \<not> list_ex is_digit u \<and>
      full_match price_rx ''42.95''"
    using fetch_price_first_nested_span [THEN mp, OF t, THEN conjunct2, of price_page]
    by (simp only: response.select_convs f p c option.case sum.case) blast
  from n p t f g show ?thesis by simp
qed

text \<open>
  The claim as stated fails twice. A page can contain the example after another price,
  and then the other price is returned. And on a page whose first \<^verbatim>\<open>dprice\<close>
  element has no nested element the claim, read word by word, takes that element, finds
  nothing nested in it and answers "not found", while the selector skips it and finds
  the \<^verbatim>\<open>span\<close> nested in the second \<^verbatim>\<open>dprice\<close> element.
\<close>

theorem first_dprice_element_counterexample:
  "([], price_snippet) \<in> set (soup_elements later_price_page) \<and>
   fetch_price (ok_response later_price_page) = Inr (Some ''1.00'') \<and>
   spec_fetch_price two_price_page = None \<and>
   fetch_price (ok_response two_price_page) = Inr (Some ''9'')"
  by (simp add: spec_fetch_price_def spec_price_element_def has_dprice_id_def
      nested_elements_def two_price_page_def later_price_page_def eval_defs)

section \<open>The loops of the aggregator\<close>

lemma classify_loop_eq:
  "classify_loop get i ps (raw0, m0, nf0) =
     Inr (raw0 @ map (row_of get) (enumerate i ps), m0,
          nf0 @ map (\<lambda>kp. vendor_part_number (snd kp)) (filter (missing get) (enumerate i ps)))"
proof (induction ps arbitrary: i raw0 nf0)
  case Nil
  then show ?case by simp
next
  case (Cons p ps)
  show ?case
  proof (cases "price_of (get i (vendor_part_number p))")
    case None
    then show ?thesis
      by (simp add: fetch_price_Inr Cons.IH row_of_def missing_def Let_def)
  next
    case (Some a)
    then show ?thesis
      by (simp add: fetch_price_Inr Cons.IH row_of_def missing_def Let_def)
  qed
qed

lemma classify_eq:
  "classify e ps =
     Inr (map (row_of (http_get e)) (enumerate 0 ps), [],
          map (\<lambda>kp. vendor_part_number (snd kp))
            (filter (missing (http_get e)) (enumerate 0 ps)))"
  by (simp add: classify_def classify_loop_eq)

lemma row_of_cost:
  "Cost (row_of get kp) = ''Not Found'' \<or> full_match price_rx (Cost (row_of get kp))"
  by (auto simp: row_of_def dest: price_of_full_match split: option.splits)

lemma row_of_missing: "(Cost (row_of get kp) = ''Not Found'') = missing get kp"
  using not_found_no_match
  by (auto simp: row_of_def missing_def dest: price_of_full_match split: option.splits)

lemma row_of_keys:
  "SupplierPartNumber (row_of get kp) = vendor_part_number (snd kp)"
  "Partnumber (row_of get kp) = part_number (snd kp)"
  by (simp_all add: row_of_def)

lemma map_enumerate_snd: "map (\<lambda>kp. f (snd kp)) (enumerate i ps) = map f ps"
  by (induction ps arbitrary: i) simp_all

lemma classify_costs:
  assumes "classify e ps = Inr (raw, multi, nf)" and "r \<in> set raw"
  shows "Cost r = ''Not Found'' \<or> full_match price_rx (Cost r)"
proof -
  from assms obtain kp where "r = row_of (http_get e) kp"
    by (auto simp: classify_eq)
  then show ?thesis using row_of_cost by simp
qed

lemma cost_search_iff:
  "Cost r = ''Not Found'' \<or> full_match price_rx (Cost r) \<Longrightarrow>
   (re_search price_rx (Cost r) \<noteq> None) = (Cost r \<noteq> ''Not Found'')"
  using not_found_no_match re_search_not_found
  by (auto simp: full_match_re_search)

lemma clean_loop_filter:
  "\<forall>r \<in> set raw. Cost r = ''Not Found'' \<or> full_match price_rx (Cost r) \<Longrightarrow>
   clean_loop raw acc = acc @ filter (\<lambda>r. Cost r \<noteq> ''Not Found'') raw"
proof (induction raw arbitrary: acc)
  case Nil
  then show ?case by simp
next
  case (Cons row rest)
  then have IH: "\<And>acc. clean_loop rest acc = acc @ filter (\<lambda>r. Cost r \<noteq> ''Not Found'') rest"
    by simp
  from Cons.prems have "Cost row = ''Not Found'' \<or> full_match price_rx (Cost row)" by simp
  then show ?case
  proof
    assume nf: "Cost row = ''Not Found''"
    then show ?thesis by (simp add: re_search_not_found IH)
  next
    assume fm: "full_match price_rx (Cost row)"
    then have "Cost row \<noteq> ''Not Found''" using not_found_no_match by auto
    with fm show ?thesis by (simp add: full_match_re_search IH)
  qed
qed

lemma classify_flaky_two:
  "classify (env_of flaky_get rs) two_parts =
     Inr ([\<lparr>SupplierPartNumber = ''A1'', Partnumber = ''P1'', Cost = ''Not Found''\<rparr>,
           \<lparr>SupplierPartNumber = ''B2'', Partnumber = ''P2'', Cost = ''42.95''\<rparr>],
          [], [''A1''])"
  by (simp add: classify_def env_of_def two_parts_def flaky_get_def fetch_price_page
      fetch_price_timeout Let_def)

lemma classify_flaky_same:
  "classify (env_of flaky_get rs) same_part_twice =
     Inr ([\<lparr>SupplierPartNumber = ''A1'', Partnumber = ''P1'', Cost = ''Not Found''\<rparr>,
           \<lparr>SupplierPartNumber = ''A1'', Partnumber = ''P2'', Cost = ''42.95''\<rparr>],
          [], [''A1''])"
  by (simp add: classify_def env_of_def same_part_twice_def flaky_get_def fetch_price_page
      fetch_price_timeout Let_def)

lemma classify_steady_two:
  "classify (env_of steady_get rs) two_parts =
     Inr ([\<lparr>SupplierPartNumber = ''A1'', Partnumber = ''P1'', Cost = ''42.95''\<rparr>,
           \<lparr>SupplierPartNumber = ''B2'', Partnumber = ''P2'', Cost = ''42.95''\<rparr>],
          [], [])"
  by (simp add: classify_def env_of_def two_parts_def steady_get_def fetch_price_page Let_def)

lemma row_of_cost_lookup:
  "Cost (row_of get (k, p)) =
     (case fetch_price (get k (vendor_part_number p)) of
        Inr (Some c) \<Rightarrow> c
      | _ \<Rightarrow> ''Not Found'')"
  by (simp add: row_of_def fetch_price_Inr split: option.splits)

text \<open>
  Claim C1. For every list of PartRecords and whatever the web site answers, the loop of
  the aggregator ends with raw results that hold exactly one PriceResult per PartRecord,
  in the order of the input: the \<open>k\<close>-th row carries the vendor and internal part
  numbers of the \<open>k\<close>-th record, and its Cost is the price that the \<open>k\<close>-th lookup
  returned for that vendor part number, or \<^verbatim>\<open>Not Found\<close> when it returned none. Every
  Cost is thus a decimal string or the sentinel.
\<close>

theorem one_price_result_per_part:
  "\<exists>raw multi nf.
     classify e ps = Inr (raw, multi, nf) \<and>
     length raw = length ps \<and>
     map (\<lambda>r. (SupplierPartNumber r, Partnumber r)) raw =
       map (\<lambda>p. (vendor_part_number p, part_number p)) ps \<and>
     (\<forall>k < length ps.
        raw ! k =
          \<lparr>SupplierPartNumber = vendor_part_number (ps ! k),
           Partnumber = part_number (ps ! k),
           Cost = (case fetch_price (http_get e k (vendor_part_number (ps ! k))) of
                     Inr (Some c) \<Rightarrow> c
                   | _ \<Rightarrow> ''Not Found'')\<rparr>) \<and>
     (\<forall>r \<in> set raw. Cost r = ''Not Found'' \<or> full_match price_rx (Cost r))"
proof -
  let ?raw = "map (row_of (http_get e)) (enumerate 0 ps)"
  have "map (\<lambda>r. (SupplierPartNumber r, Partnumber r)) ?raw =
        map (\<lambda>kp. (\<lambda>p. (vendor_part_number p, part_number p)) (snd kp)) (enumerate 0 ps)"
    by (simp add: row_of_keys)
  also have "\<dots> = map (\<lambda>p. (vendor_part_number p, part_number p)) ps"
    by (rule map_enumerate_snd)
  finally have ids: "map (\<lambda>r. (SupplierPartNumber r, Partnumber r)) ?raw =
      map (\<lambda>p. (vendor_part_number p, part_number p)) ps" .
  have rows: "?raw ! k =
          \<lparr>SupplierPartNumber = vendor_part_number (ps ! k),
           Partnumber = part_number (ps ! k),
           Cost = (case fetch_price (http_get e k (vendor_part_number (ps ! k))) of
                     Inr (Some c) \<Rightarrow> c
                   | _ \<Rightarrow> ''Not Found'')\<rparr>" if "k < length ps" for k
  proof -
    from that have "?raw ! k = row_of (http_get e) (k, ps ! k)"
      by (simp add: nth_enumerate_eq)
    moreover have "row_of (http_get e) (k, ps ! k) =
        \<lparr>SupplierPartNumber = vendor_part_number (ps ! k),
         Partnumber = part_number (ps ! k),
         Cost = Cost (row_of (http_get e) (k, ps ! k))\<rparr>"
      by (simp add: row_of_def)
    ultimately show ?thesis by (simp only: row_of_cost_lookup)
  qed
  have costs: "\<forall>r \<in> set ?raw. Cost r = ''Not Found'' \<or> full_match price_rx (Cost r)"
    using row_of_cost by auto
  have "classify e ps = Inr (?raw, [],
      map (\<lambda>kp. vendor_part_number (snd kp)) (filter (missing (http_get e)) (enumerate 0 ps)))"
    by (rule classify_eq)
  moreover have "length ?raw = length ps" by simp
  ultimately show ?thesis using ids rows costs by blast
qed

theorem one_price_result_per_part_witness:
  "\<exists>raw multi nf.
     classify (env_of flaky_get None) two_parts = Inr (raw, multi, nf) \<and>
     length raw = 2 \<and>
     map (\<lambda>r. (SupplierPartNumber r, Partnumber r)) raw = [(''A1'', ''P1''), (''B2'', ''P2'')] \<and>
     raw ! 0 = \<lparr>SupplierPartNumber = ''A1'', Partnumber = ''P1'', Cost = ''Not Found''\<rparr> \<and>
     raw ! 1 = \<lparr>SupplierPartNumber = ''B2'', Partnumber = ''P2'', Cost = ''42.95''\<rparr> \<and>
     full_match price_rx ''42.95''"
proof -
  let ?e = "env_of flaky_get None"
  from one_price_result_per_part [of ?e two_parts] obtain raw multi nf
    where c: "classify ?e two_parts = Inr (raw, multi, nf)"
      and l: "length raw = length two_parts"
      and m: "map (\<lambda>r. (SupplierPartNumber r, Partnumber r)) raw =
         map (\<lambda>p. (vendor_part_number p, part_number p)) two_parts"
      and r: "\<forall>k < length two_parts.
        raw ! k =
          \<lparr>SupplierPartNumber = vendor_part_number (two_parts ! k),
           Partnumber = part_number (two_parts ! k),
           Cost = (case fetch_price (http_get ?e k (vendor_part_number (two_parts ! k))) of
                     Inr (Some c) \<Rightarrow> c
                   | _ \<Rightarrow> ''Not Found'')\<rparr>"
      and v: "\<forall>r \<in> set raw. Cost r = ''Not Found'' \<or> full_match price_rx (Cost r)"
    by blast
  have len: "length two_parts = 2" by (simp add: two_parts_def)
  from r len have r0: "raw ! 0 =
      \<lparr>SupplierPartNumber = ''A1'', Partnumber = ''P1'', Cost = ''Not Found''\<rparr>"
    by (simp add: two_parts_def env_of_def flaky_get_def fetch_price_timeout)
  from r len have "raw ! 1 =
          \<lparr>SupplierPartNumber = vendor_part_number (two_parts ! 1),
           Partnumber = part_number (two_parts ! 1),
           Cost = (case fetch_price (http_get ?e 1 (vendor_part_number (two_parts ! 1))) of
                     Inr (Some c) \<Rightarrow> c
                   | _ \<Rightarrow> ''Not Found'')\<rparr>"
    by simp
  then have r1: "raw ! 1 =
      \<lparr>SupplierPartNumber = ''B2'', Partnumber = ''P2'', Cost = ''42.95''\<rparr>"
    by (simp add: two_parts_def env_of_def flaky_get_def fetch_price_page)
  from l len have "raw ! 1 \<in> set raw" by simp
  with v r1 have "full_match price_rx ''42.95''" by force
  with c l m r0 r1 len show ?thesis by (simp add: two_parts_def)
qed

lemma not_found_list:
  assumes "classify e ps = Inr (raw, multi, nf)"
  shows "nf = map SupplierPartNumber (filter (\<lambda>r. Cost r = ''Not Found'') raw)"
proof -
  let ?en = "enumerate 0 ps"
  from assms have raw: "raw = map (row_of (http_get e)) ?en"
    and nf: "nf = map (\<lambda>kp. vendor_part_number (snd kp)) (filter (missing (http_get e)) ?en)"
    by (simp_all add: classify_eq)
  have "map SupplierPartNumber (filter (\<lambda>r. Cost r = ''Not Found'') raw) =
        map (\<lambda>kp. SupplierPartNumber (row_of (http_get e) kp))
          (filter (\<lambda>kp. Cost (row_of (http_get e) kp) = ''Not Found'') ?en)"
    unfolding raw by (simp add: filter_map comp_def)
  also have "\<dots> = nf" unfolding nf by (simp add: row_of_missing row_of_keys)
  finally show ?thesis by simp
qed

lemma entry_iff:
  "list_ex (\<lambda>x. VendorPartNumber x = v \<and> Error x = ''No results found'') (not_found_entries nf)
     = (v \<in> set nf)"
  by (auto simp: list_ex_iff not_found_entries_def)

lemma raw_suppliers:
  assumes "classify e ps = Inr (raw, multi, nf)"
  shows "map SupplierPartNumber raw = map vendor_part_number ps"
proof -
  from assms have "raw = map (row_of (http_get e)) (enumerate 0 ps)"
    by (simp add: classify_eq)
  then have "map SupplierPartNumber raw =
      map (\<lambda>kp. vendor_part_number (snd kp)) (enumerate 0 ps)"
    by (simp add: row_of_keys)
  then show ?thesis by (simp only: map_enumerate_snd)
qed

lemma raw_cost_steady:
  assumes "classify e ps = Inr (raw, multi, nf)"
    and "\<forall>i j v. http_get e i v = http_get e j v"
    and "r \<in> set raw"
  shows "Cost r = (case price_of (http_get e 0 (SupplierPartNumber r)) of
                     None \<Rightarrow> ''Not Found'' | Some p \<Rightarrow> p)"
proof -
  from assms(1,3) obtain kp where r: "r = row_of (http_get e) kp"
    by (auto simp: classify_eq)
  from assms(2) have "http_get e (fst kp) (vendor_part_number (snd kp)) =
      http_get e 0 (vendor_part_number (snd kp))" by blast
  then show ?thesis unfolding r by (simp add: row_of_def)
qed

text \<open>
  Claim C2, amended. The vendor part numbers logged as not found are exactly those of the
  raw rows whose Cost is \<^verbatim>\<open>Not Found\<close>, in the order of the rows; each is logged with
  the reason \<^verbatim>\<open>No results found\<close>. The equivalence of the claim, between a row's
  Cost being the sentinel and an entry for the row's vendor part number, holds when no
  vendor part number occurs twice in the input, and also when the web site answers every
  request for the same part number alike.
\<close>

theorem not_found_rows_are_logged:
  assumes "classify e ps = Inr (raw, multi, nf)"
  shows "nf = map SupplierPartNumber (filter (\<lambda>r. Cost r = ''Not Found'') raw) \<and>
         (distinct (map vendor_part_number ps) \<or> (\<forall>i j v. http_get e i v = http_get e j v)
            \<longrightarrow> not_found_iff_error_entry raw (not_found_entries nf))"
proof (intro conjI impI)
  show nf: "nf = map SupplierPartNumber (filter (\<lambda>r. Cost r = ''Not Found'') raw)"
    by (rule not_found_list [OF assms])
  assume cond: "distinct (map vendor_part_number ps) \<or>
    (\<forall>i j v. http_get e i v = http_get e j v)"
  have "(Cost r = ''Not Found'') = (SupplierPartNumber r \<in> set nf)" if r: "r \<in> set raw" for r
  proof
    assume "Cost r = ''Not Found''"
    with r show "SupplierPartNumber r \<in> set nf" unfolding nf by auto
  next
    assume "SupplierPartNumber r \<in> set nf"
    then obtain r' where r': "r' \<in> set raw" "Cost r' = ''Not Found''"
      "SupplierPartNumber r' = SupplierPartNumber r"
      unfolding nf by auto
    from cond show "Cost r = ''Not Found''"
    proof
      assume "distinct (map vendor_part_number ps)"
      then have "distinct (map SupplierPartNumber raw)"
        by (simp only: raw_suppliers [OF assms])
      then have "inj_on SupplierPartNumber (set raw)" by (simp add: distinct_map)
      with r r' have "r' = r" by (auto dest: inj_onD)
      with r' show ?thesis by simp
    next
      assume st: "\<forall>i j v. http_get e i v = http_get e j v"
      from raw_cost_steady [OF assms st r] raw_cost_steady [OF assms st r'(1)] r'
      show ?thesis by simp
    qed
  qed
  then show "not_found_iff_error_entry raw (not_found_entries nf)"
    by (simp add: not_found_iff_error_entry_def list_all_iff entry_iff)
qed

theorem not_found_rows_are_logged_witness:
  "not_found_iff_error_entry
     [\<lparr>SupplierPartNumber = ''A1'', Partnumber = ''P1'', Cost = ''Not Found''\<rparr>,
      \<lparr>SupplierPartNumber = ''B2'', Partnumber = ''P2'', Cost = ''42.95''\<rparr>]
     (not_found_entries [''A1''])"
  using not_found_rows_are_logged [OF classify_flaky_two [of None]]
  by (simp add: two_parts_def)

text \<open>
  The claim as stated fails when a vendor part number occurs twice and the site answers
  the two requests differently: the first lookup of \<^verbatim>\<open>A1\<close> times out, the second
  finds 42.95. The second row has a price, and an entry for \<^verbatim>\<open>A1\<close> is in the log.
\<close>

theorem not_found_iff_error_entry_counterexample:
  "classify (env_of flaky_get None) same_part_twice =
     Inr ([\<lparr>SupplierPartNumber = ''A1'', Partnumber = ''P1'', Cost = ''Not Found''\<rparr>,
           \<lparr>SupplierPartNumber = ''A1'', Partnumber = ''P2'', Cost = ''42.95''\<rparr>],
          [], [''A1'']) \<and>
   \<not> not_found_iff_error_entry
       [\<lparr>SupplierPartNumber = ''A1'', Partnumber = ''P1'', Cost = ''Not Found''\<rparr>,
        \<lparr>SupplierPartNumber = ''A1'', Partnumber = ''P2'', Cost = ''42.95''\<rparr>]
       (not_found_entries [''A1''])"
  by (simp add: classify_flaky_same not_found_iff_error_entry_def not_found_entries_def)

lemma full_match_eval: "full_match price_rx ''19.99''" "full_match price_rx ''5''"
  by (simp_all add: full_match_def price_rx_def plus_digit_Cons is_digit_def)

text \<open>
  Claim C3. On raw results whose Cost is the sentinel or a decimal string, as the raw
  results of every run of the aggregator are, cleaning returns the rows whose Cost is not
  the sentinel, in their order and unchanged; and a string the pattern has extracted is
  extracted from itself unchanged. The example of the specification, the costs 19.99,
  Not Found and 5, follows below.
\<close>

theorem clean_drops_not_found_rows:
  assumes "\<forall>r \<in> set raw. Cost r = ''Not Found'' \<or> full_match price_rx (Cost r)"
  shows "clean raw = filter (\<lambda>r. Cost r \<noteq> ''Not Found'') raw \<and>
         (\<forall>s m. re_search price_rx s = Some m \<longrightarrow> re_search price_rx m = Some m) \<and>
         (\<forall>e ps raw' multi nf. classify e ps = Inr (raw', multi, nf) \<longrightarrow>
            clean raw' = filter (\<lambda>r. Cost r \<noteq> ''Not Found'') raw')"
proof (intro conjI allI impI)
  show "clean raw = filter (\<lambda>r. Cost r \<noteq> ''Not Found'') raw"
    using clean_loop_filter [OF assms, of "[]"] by (simp add: clean_def)
  show "re_search price_rx m = Some m" if "re_search price_rx s = Some m" for s m
    using that by (auto dest: re_search_full_match full_match_re_search)
  show "clean raw' = filter (\<lambda>r. Cost r \<noteq> ''Not Found'') raw'"
    if c: "classify e ps = Inr (raw', multi, nf)" for e ps raw' multi nf
  proof -
    have "\<forall>r \<in> set raw'. Cost r = ''Not Found'' \<or> full_match price_rx (Cost r)"
      using classify_costs [OF c] by blast
    from clean_loop_filter [OF this, of "[]"] show ?thesis by (simp add: clean_def)
  qed
qed

theorem clean_drops_not_found_rows_witness:
  "clean three_rows =
     [\<lparr>SupplierPartNumber = ''A1'', Partnumber = ''P1'', Cost = ''19.99''\<rparr>,
      \<lparr>SupplierPartNumber = ''C3'', Partnumber = ''P3'', Cost = ''5''\<rparr>] \<and>
   re_search price_rx ''19.99'' = Some ''19.99'' \<and>
   clean [\<lparr>SupplierPartNumber = ''A1'', Partnumber = ''P1'', Cost = ''Not Found''\<rparr>,
          \<lparr>SupplierPartNumber = ''B2'', Partnumber = ''P2'', Cost = ''42.95''\<rparr>] =
     [\<lparr>SupplierPartNumber = ''B2'', Partnumber = ''P2'', Cost = ''42.95''\<rparr>]"
proof -
  have h: "\<forall>r \<in> set three_rows. Cost r = ''Not Found'' \<or> full_match price_rx (Cost r)"
    by (simp add: three_rows_def full_match_eval)
  have s: "re_search price_rx ''$19.99 each'' = Some ''19.99''"
    by (simp add: eval_defs)
  from clean_drops_not_found_rows [OF h]
  have a: "clean three_rows = filter (\<lambda>r. Cost r \<noteq> ''Not Found'') three_rows"
    and b: "\<forall>s m. re_search price_rx s = Some m \<longrightarrow> re_search price_rx m = Some m"
    and c: "\<forall>e ps raw' multi nf. classify e ps = Inr (raw', multi, nf) \<longrightarrow>
              clean raw' = filter (\<lambda>r. Cost r \<noteq> ''Not Found'') raw'"
    by simp_all
  from b s have "re_search price_rx ''19.99'' = Some ''19.99''" by blast
  moreover from c classify_flaky_two [of None]
  have "clean [\<lparr>SupplierPartNumber = ''A1'', Partnumber = ''P1'', Cost = ''Not Found''\<rparr>,
          \<lparr>SupplierPartNumber = ''B2'', Partnumber = ''P2'', Cost = ''42.95''\<rparr>] =
     filter (\<lambda>r. Cost r \<noteq> ''Not Found'')
       [\<lparr>SupplierPartNumber = ''A1'', Partnumber = ''P1'', Cost = ''Not Found''\<rparr>,
          \<lparr>SupplierPartNumber = ''B2'', Partnumber = ''P2'', Cost = ''42.95''\<rparr>]"
    by blast
  ultimately show ?thesis using a by (simp add: three_rows_def)
qed

text \<open>
  Claim C10. Every Cost of the raw results is the sentinel \<^verbatim>\<open>Not Found\<close> or a full
  match of the decimal pattern, and the pattern of the cleaning step is found in a raw
  Cost exactly when that Cost is not the sentinel.
\<close>

theorem raw_cost_sentinel_or_decimal:
  assumes "classify e ps = Inr (raw, multi, nf)"
  shows "\<forall>r \<in> set raw.
           (Cost r = ''Not Found'' \<or> full_match price_rx (Cost r)) \<and>
           (re_search price_rx (Cost r) \<noteq> None) = (Cost r \<noteq> ''Not Found'')"
proof
  fix r assume "r \<in> set raw"
  then have c: "Cost r = ''Not Found'' \<or> full_match price_rx (Cost r)"
    by (rule classify_costs [OF assms])
  with cost_search_iff [OF c]
  show "(Cost r = ''Not Found'' \<or> full_match price_rx (Cost r)) \<and>
        (re_search price_rx (Cost r) \<noteq> None) = (Cost r \<noteq> ''Not Found'')" by simp
qed

theorem raw_cost_sentinel_or_decimal_witness:
  "classify (env_of flaky_get None) two_parts =
     Inr ([\<lparr>SupplierPartNumber = ''A1'', Partnumber = ''P1'', Cost = ''Not Found''\<rparr>,
           \<lparr>SupplierPartNumber = ''B2'', Partnumber = ''P2'', Cost = ''42.95''\<rparr>],
          [], [''A1'']) \<and>
   full_match price_rx ''42.95'' \<and>
   re_search price_rx ''42.95'' \<noteq> None \<and>
   re_search price_rx ''Not Found'' = None"
  using raw_cost_sentinel_or_decimal [OF classify_flaky_two [of None]]
    classify_flaky_two [of None]
  by simp

section \<open>Uploads\<close>

lemma put_all_log:
  "\<exists>n \<le> length kbs. put_log (snd (put_all e kbs w)) = put_log w @ take n kbs"
proof (induction kbs arbitrary: w)
  case Nil
  then show ?case by simp
next
  case (Cons kb kbs)
  show ?case
  proof (cases "s3_put_fails e (put_attempts w)")
    case True
    then have "put_log (snd (put_all e (kb # kbs) w)) = put_log w @ take 0 (kb # kbs)"
      by (simp add: put_object_def then_do_def)
    then show ?thesis by blast
  next
    case False
    let ?w = "w\<lparr>objects := (objects w)(fst kb \<mapsto> snd kb),
                 put_log := put_log w @ [(fst kb, snd kb)],
                 put_attempts := Suc (put_attempts w)\<rparr>"
    from False have step: "put_all e (kb # kbs) w = put_all e kbs ?w"
      by (simp add: put_object_def then_do_def)
    from Cons.IH [of ?w] obtain n
      where n: "n \<le> length kbs" "put_log (snd (put_all e kbs ?w)) = put_log ?w @ take n kbs"
      by blast
    then have "Suc n \<le> length (kb # kbs) \<and>
        put_log (snd (put_all e (kb # kbs) w)) = put_log w @ take (Suc n) (kb # kbs)"
      using step by simp
    then show ?thesis by blast
  qed
qed

lemma put_all_ok:
  "\<forall>i < length kbs. \<not> s3_put_fails e (put_attempts w + i) \<Longrightarrow>
   put_all e kbs w =
     (Inr (),
      w\<lparr>objects := fold (\<lambda>kb m. m(fst kb \<mapsto> snd kb)) kbs (objects w),
        put_log := put_log w @ kbs,
        put_attempts := put_attempts w + length kbs\<rparr>)"
proof (induction kbs arbitrary: w)
  case Nil
  then show ?case by simp
next
  case (Cons kb kbs)
  let ?w = "w\<lparr>objects := (objects w)(fst kb \<mapsto> snd kb),
               put_log := put_log w @ [(fst kb, snd kb)],
               put_attempts := Suc (put_attempts w)\<rparr>"
  from Cons.prems have ok: "\<not> s3_put_fails e (put_attempts w)" by auto
  from Cons.prems have "\<forall>i < length kbs. \<not> s3_put_fails e (put_attempts ?w + i)" by auto
  from Cons.IH [OF this] ok show ?case
    by (simp add: put_object_def then_do_def)
qed

lemma put_all_Inr:
  "fst (put_all e kbs w) = Inr u \<Longrightarrow>
   put_log (snd (put_all e kbs w)) = put_log w @ kbs \<and>
   objects (snd (put_all e kbs w)) = fold (\<lambda>kb m. m(fst kb \<mapsto> snd kb)) kbs (objects w)"
proof (induction kbs arbitrary: w)
  case Nil
  then show ?case by simp
next
  case (Cons kb kbs)
  show ?case
  proof (cases "s3_put_fails e (put_attempts w)")
    case True
    with Cons.prems show ?thesis by (simp add: put_object_def then_do_def)
  next
    case False
    let ?w = "w\<lparr>objects := (objects w)(fst kb \<mapsto> snd kb),
                 put_log := put_log w @ [(fst kb, snd kb)],
                 put_attempts := Suc (put_attempts w)\<rparr>"
    from False have step: "put_all e (kb # kbs) w = put_all e kbs ?w"
      by (simp add: put_object_def then_do_def)
    with Cons.prems have "fst (put_all e kbs ?w) = Inr u" by simp
    from Cons.IH [OF this] step show ?thesis by simp
  qed
qed

lemma put_all_Inl: "fst (put_all e kbs w) = Inl x \<Longrightarrow> x = StorageError"
proof (induction kbs arbitrary: w)
  case Nil
  then show ?case by simp
next
  case (Cons kb kbs)
  then show ?case
    by (cases "s3_put_fails e (put_attempts w)") (auto simp: put_object_def then_do_def)
qed

lemma put_all_fails:
  "fst (put_all e kbs w) = Inl x \<Longrightarrow> \<exists>i < length kbs. s3_put_fails e (put_attempts w + i)"
  using put_all_ok [of kbs e w] by (cases "\<forall>i < length kbs. \<not> s3_put_fails e (put_attempts w + i)") auto

lemma put_all_frame:
  "k \<notin> fst ` set kbs \<Longrightarrow> objects (snd (put_all e kbs w)) k = objects w k"
proof (induction kbs arbitrary: w)
  case Nil
  then show ?case by simp
next
  case (Cons kb kbs)
  then show ?case
    by (cases "s3_put_fails e (put_attempts w)") (auto simp: put_object_def then_do_def)
qed

lemma fold_put_frame:
  "k \<notin> fst ` set kbs \<Longrightarrow> fold (\<lambda>kb m. m(fst kb \<mapsto> snd kb)) kbs m k = m k"
  by (induction kbs arbitrary: m) auto

lemma then_do_return: "then_do r (\<lambda>u w. (Inr (), w)) = r"
  by (cases r) (auto simp: then_do_def split: sum.splits)

lemma then_do_Inr: "then_do (Inr a, w) f = f a w"
  by (simp add: then_do_def)

lemma then_do_Inl: "then_do (Inl x, w) f = (Inl x, w)"
  by (simp add: then_do_def)

lemma put_all_Nil_fun: "put_all e [] = (\<lambda>w. (Inr (), w))"
  by (rule ext) simp

lemma put_all_Cons_fun:
  "put_all e (kb # kbs) = (\<lambda>w. then_do (put_object e (fst kb) (snd kb) w) (\<lambda>u. put_all e kbs))"
  by (rule ext) simp

lemmas put_all_unfold = put_all_Cons_fun put_all_Nil_fun then_do_return then_do_Inr

lemma clear_all_csvs_put_all: "clear_all_csvs e w = put_all e reset_puts w"
  by (simp add: clear_all_csvs_def clear_csv_on_s3_def reset_puts_def header_only_def
      put_all_unfold)

lemma writerows_price:
  "writerows price_columns (map price_row_dict rs) = Inr (map price_cells rs)"
  by (induction rs)
    (simp_all add: dict_to_list_def price_columns_def price_row_dict_def price_cells_def)

lemma writerows_not_found:
  "writerows error_columns (map error_row_dict (not_found_entries nf)) =
     Inr (map not_found_cells nf)"
  by (induction nf)
    (simp_all add: dict_to_list_def error_columns_def error_row_dict_def not_found_cells_def
      not_found_entries_def)

lemma writerows_multi:
  "writerows error_columns (map error_row_dict (multi_entries ms)) =
     Inr (map (\<lambda>v. [v, ''Multiple results found'']) ms)"
  by (induction ms)
    (simp_all add: dict_to_list_def error_columns_def error_row_dict_def multi_entries_def)

lemma write_results_put_all: "write_results e ls w = put_all e (planned_puts ls) w"
proof -
  obtain raw multi nf where ls: "ls = (raw, multi, nf)" by (cases ls) auto
  show ?thesis
    unfolding ls write_results_def planned_puts_def save_csv_to_s3_def
      writerows_price writerows_not_found writerows_multi
    by (cases "multi = []"; cases "nf = []") (simp_all add: put_all_unfold)
qed

lemma search_put_all:
  "classify e ps = Inr ls \<Longrightarrow>
   search_part_numbers_on_rockauto e ps w = put_all e (planned_puts ls) w"
  by (simp add: search_part_numbers_on_rockauto_def write_results_put_all)

lemma planned_keys_multi:
  "multi_result_log_csv \<notin> fst ` set (planned_puts (raw, [], nf))"
  by (auto simp: planned_puts_def multi_result_log_csv_def not_found_log_csv_def
      output_csv_file_def cleaned_csv_file_def)

lemma planned_keys_not_found:
  "not_found_log_csv \<notin> fst ` set (planned_puts (raw, [], []))"
  by (simp add: planned_puts_def not_found_log_csv_def output_csv_file_def
      cleaned_csv_file_def)

lemma planned_puts_length: "length (planned_puts (raw, [], nf)) \<le> 3"
  by (simp add: planned_puts_def)

lemma reset_objects:
  "list_all (\<lambda>kb. fold (\<lambda>kb m. m(fst kb \<mapsto> snd kb)) reset_puts m (fst kb) = Some (snd kb))
     reset_puts"
  by (simp add: reset_puts_def multi_result_log_csv_def not_found_log_csv_def
      output_csv_file_def cleaned_csv_file_def)

lemma reset_object_values:
  "fold (\<lambda>kb m. m(fst kb \<mapsto> snd kb)) reset_puts m multi_result_log_csv =
     Some (header_only error_columns)"
  "fold (\<lambda>kb m. m(fst kb \<mapsto> snd kb)) reset_puts m not_found_log_csv =
     Some (header_only error_columns)"
  by (simp_all add: reset_puts_def multi_result_log_csv_def not_found_log_csv_def
      output_csv_file_def cleaned_csv_file_def)

text \<open>
  Claim C8. The loop of the aggregator always ends with an empty list of multiple-result
  errors, so no entry with the reason \<^verbatim>\<open>Multiple results found\<close> exists; and the
  aggregation step uploads nothing under the key of the multi-result log, whose object
  stays as it was.
\<close>

theorem multi_errors_always_empty:
  "(\<exists>raw nf. classify e ps = Inr (raw, [], nf)) \<and>
   multi_entries [] = [] \<and>
   (\<exists>new. put_log (snd (search_part_numbers_on_rockauto e ps w)) = put_log w @ new \<and>
          multi_result_log_csv \<notin> fst ` set new) \<and>
   objects (snd (search_part_numbers_on_rockauto e ps w)) multi_result_log_csv =
     objects w multi_result_log_csv"
proof -
  obtain raw nf where c: "classify e ps = Inr (raw, [], nf)"
    by (simp add: classify_eq)
  let ?kbs = "planned_puts (raw, [], nf)"
  note s = search_put_all [OF c, of w]
  from put_all_log [of ?kbs e w] obtain n
    where n: "put_log (snd (put_all e ?kbs w)) = put_log w @ take n ?kbs" by blast
  have "fst ` set (take n ?kbs) \<subseteq> fst ` set ?kbs"
    by (intro image_mono set_take_subset)
  with planned_keys_multi [of raw nf]
  have "multi_result_log_csv \<notin> fst ` set (take n ?kbs)" by blast
  with n have "\<exists>new. put_log (snd (put_all e ?kbs w)) = put_log w @ new \<and>
      multi_result_log_csv \<notin> fst ` set new" by blast
  moreover have "objects (snd (put_all e ?kbs w)) multi_result_log_csv =
      objects w multi_result_log_csv"
    by (rule put_all_frame [OF planned_keys_multi])
  ultimately show ?thesis using c by (simp add: s multi_entries_def)
qed

theorem multi_errors_always_empty_witness:
  "(\<exists>raw nf. classify (env_of flaky_get None) two_parts = Inr (raw, [], nf)) \<and>
   objects (snd (search_part_numbers_on_rockauto (env_of flaky_get None) two_parts world0))
     multi_result_log_csv = None"
  using multi_errors_always_empty [of "env_of flaky_get None" two_parts world0]
  by (simp add: world0_def)

section \<open>The warehouse reader and the orchestrator\<close>

lemma fetch_part_numbers_exits:
  "(\<not> sf_connect_fails e \<and> \<not> sf_execute_fails e \<and> sf_fetchall e = Some rs \<longrightarrow>
      fetch_part_numbers e w = (Inr (warehouse_parts e), w)) \<and>
   (sf_connect_fails e \<longrightarrow> fetch_part_numbers e w = (Inl (WarehouseError Connect), w)) \<and>
   (\<not> sf_connect_fails e \<and> (sf_execute_fails e \<or> sf_fetchall e = None) \<longrightarrow>
      (\<exists>st. fst (fetch_part_numbers e w) = Inl (WarehouseError st)) \<and>
      open_conns (snd (fetch_part_numbers e w)) = Suc (open_conns w) \<and>
      open_cursors (snd (fetch_part_numbers e w)) = Suc (open_cursors w))"
  by (auto simp: fetch_part_numbers_def warehouse_parts_def Let_def split: option.splits)

text \<open>
  Claim C6 asks that the reader close the warehouse connection on every exit path. The
  function closes the cursor and the connection after \<^verbatim>\<open>fetchall\<close> has returned
  (lines 65 and 66) and on no other path. Here the connection is made, the query runs
  and \<^verbatim>\<open>fetchall\<close> raises: the function ends with that error, and the connection
  and the cursor it opened are still open.
\<close>

theorem fetch_part_numbers_leaves_connection_open:
  "fst (fetch_part_numbers (env_of steady_get None) world0) = Inl (WarehouseError Fetchall) \<and>
   open_conns world0 = 0 \<and>
   open_conns (snd (fetch_part_numbers (env_of steady_get None) world0)) = 1 \<and>
   open_cursors (snd (fetch_part_numbers (env_of steady_get None) world0)) = 1"
  by (simp add: fetch_part_numbers_def env_of_def world0_def Let_def)

lemma fetch_part_numbers_fails:
  assumes "sf_connect_fails e \<or> sf_execute_fails e \<or> sf_fetchall e = None"
  shows "\<exists>st w'. fetch_part_numbers e w = (Inl (WarehouseError st), w') \<and>
           put_log w' = put_log w \<and> objects w' = objects w"
  using assms
  by (auto simp: fetch_part_numbers_def Let_def split: option.splits)

lemma fetch_part_numbers_Inr:
  "fst (fetch_part_numbers e w) = Inr ps \<Longrightarrow>
   fetch_part_numbers e w = (Inr (warehouse_parts e), w)"
  by (auto simp: fetch_part_numbers_def warehouse_parts_def Let_def
      split: option.splits if_splits)

text \<open>
  Claim C7. When the warehouse connection, the query or the row fetching fails, the run
  ends with an error and returns no summary, and all it has uploaded are header-only
  resets, in the order of \<open>clear_all_csvs\<close>. Unless one of these four uploads itself
  has failed, the error is the warehouse's, all four resets have been made, and the four
  keys hold their header-only files.
\<close>

theorem warehouse_failure_leaves_header_only_files:
  assumes "sf_connect_fails e \<or> sf_execute_fails e \<or> sf_fetchall e = None"
  shows "\<exists>x w'. lambda_handler e w = (Inl x, w') \<and>
           (\<exists>n \<le> 4. put_log w' = put_log w @ take n reset_puts) \<and>
           ((\<forall>i < 4. \<not> s3_put_fails e (put_attempts w + i)) \<longrightarrow>
              (\<exists>st. x = WarehouseError st) \<and>
              put_log w' = put_log w @ reset_puts \<and>
              list_all (\<lambda>kb. objects w' (fst kb) = Some (snd kb)) reset_puts)"
proof -
  have len: "length reset_puts = 4" by (simp add: reset_puts_def)
  obtain r w1 where p: "put_all e reset_puts w = (r, w1)" by (cases "put_all e reset_puts w")
  from put_all_log [of reset_puts e w] p len obtain n
    where n: "n \<le> 4" "put_log w1 = put_log w @ take n reset_puts" by auto
  show ?thesis
  proof (cases r)
    case (Inl x)
    with p have lh: "lambda_handler e w = (Inl x, w1)"
      by (simp add: lambda_handler_def clear_all_csvs_put_all then_do_Inl)
    from put_all_fails [of e reset_puts w x] p Inl len
    have "\<exists>i < 4. s3_put_fails e (put_attempts w + i)" by simp
    with lh n show ?thesis by auto
  next
    case (Inr u)
    with p put_all_Inr [of e reset_puts w u]
    have w1: "put_log w1 = put_log w @ reset_puts"
      "objects w1 = fold (\<lambda>kb m. m(fst kb \<mapsto> snd kb)) reset_puts (objects w)" by simp_all
    from fetch_part_numbers_fails [OF assms, of w1] obtain st w2
      where f: "fetch_part_numbers e w1 = (Inl (WarehouseError st), w2)"
        "put_log w2 = put_log w1" "objects w2 = objects w1" by blast
    from p Inr f have lh: "lambda_handler e w = (Inl (WarehouseError st), w2)"
      by (simp add: lambda_handler_def clear_all_csvs_put_all then_do_Inl then_do_Inr)
    have "list_all (\<lambda>kb. objects w2 (fst kb) = Some (snd kb)) reset_puts"
      unfolding f(3) w1(2) by (rule reset_objects)
    moreover have "\<exists>n \<le> 4. put_log w2 = put_log w @ take n reset_puts"
      using n f(2) by auto
    ultimately show ?thesis using lh f(2) w1(1) by auto
  qed
qed

theorem warehouse_failure_leaves_header_only_files_witness:
  "\<exists>x w'. lambda_handler (env_of steady_get None) world0 = (Inl x, w') \<and>
     (\<exists>st. x = WarehouseError st) \<and>
     put_log w' = reset_puts \<and>
     objects w' not_found_log_csv = Some \<lparr>header = [''VendorPartNumber'', ''Error''], rows = []\<rparr> \<and>
     objects w' cleaned_csv_file =
       Some \<lparr>header = [''SupplierPartNumber'', ''Partnumber'', ''Cost''], rows = []\<rparr>"
proof -
  have a: "sf_connect_fails (env_of steady_get None) \<or> sf_execute_fails (env_of steady_get None)
     \<or> sf_fetchall (env_of steady_get None) = None"
    by (simp add: env_of_def)
  have b: "\<forall>i < 4. \<not> s3_put_fails (env_of steady_get None) (put_attempts world0 + i)"
    by (simp add: env_of_def)
  from warehouse_failure_leaves_header_only_files [OF a, of world0] b
  show ?thesis
    by (auto simp: world0_def reset_puts_def header_only_def error_columns_def
        price_columns_def)
qed

lemma all_priced_no_entries:
  assumes "classify e ps = Inr (raw, multi, nf)" and "all_priced e ps"
  shows "nf = []"
proof -
  from assms(2) have "filter (missing (http_get e)) (enumerate 0 ps) = []"
    by (auto simp: all_priced_def list_all_iff filter_empty_conv)
  with assms(1) show ?thesis by (simp add: classify_eq)
qed

lemma lambda_handler_success:
  assumes "fst (lambda_handler e w) = Inr s"
  shows "\<exists>raw nf.
           classify e (warehouse_parts e) = Inr (raw, [], nf) \<and>
           put_log (snd (lambda_handler e w)) =
             put_log w @ reset_puts @ planned_puts (raw, [], nf) \<and>
           objects (snd (lambda_handler e w)) =
             fold (\<lambda>kb m. m(fst kb \<mapsto> snd kb)) (planned_puts (raw, [], nf))
               (fold (\<lambda>kb m. m(fst kb \<mapsto> snd kb)) reset_puts (objects w))"
proof -
  obtain raw nf where c: "classify e (warehouse_parts e) = Inr (raw, [], nf)"
    by (simp add: classify_eq)
  let ?kbs = "planned_puts (raw, [], nf)"
  obtain r1 w1 where p1: "put_all e reset_puts w = (r1, w1)" by (cases "put_all e reset_puts w")
  obtain r2 w2 where p2: "fetch_part_numbers e w1 = (r2, w2)"
    by (cases "fetch_part_numbers e w1")
  obtain r3 w3 where p3: "put_all e ?kbs w1 = (r3, w3)" by (cases "put_all e ?kbs w1")
  from assms p1 obtain u1 where r1: "r1 = Inr u1"
    by (cases r1) (auto simp: lambda_handler_def clear_all_csvs_put_all then_do_Inl)
  from assms p1 r1 p2 obtain ps where r2: "r2 = Inr ps"
    by (cases r2)
      (auto simp: lambda_handler_def clear_all_csvs_put_all then_do_Inl then_do_Inr)
  from fetch_part_numbers_Inr [of e w1 ps] p2 r2
  have f: "fetch_part_numbers e w1 = (Inr (warehouse_parts e), w1)" by simp
  have lh: "lambda_handler e w =
      then_do (r3, w3) (\<lambda>u w. (Inr \<lparr>statusCode = 200, message = ''RockAuto scrape complete'',
        searched_count = length (warehouse_parts e)\<rparr>, w))"
    using p1 r1 f p3
    by (simp add: lambda_handler_def clear_all_csvs_put_all then_do_Inr
        search_put_all [OF c])
  from assms lh obtain u3 where r3: "r3 = Inr u3"
    by (cases r3) (auto simp: then_do_Inl)
  from lh r3 have w3: "snd (lambda_handler e w) = w3" by (simp add: then_do_Inr)
  from put_all_Inr [of e reset_puts w u1] p1 r1
  have a: "put_log w1 = put_log w @ reset_puts"
    "objects w1 = fold (\<lambda>kb m. m(fst kb \<mapsto> snd kb)) reset_puts (objects w)" by simp_all
  from put_all_Inr [of e ?kbs w1 u3] p3 r3
  have b: "put_log w3 = put_log w1 @ ?kbs"
    "objects w3 = fold (\<lambda>kb m. m(fst kb \<mapsto> snd kb)) ?kbs (objects w1)" by simp_all
  from a b c show ?thesis unfolding w3 by simp
qed

text \<open>
  Claim C9. The aggregator uploads the not-found log only when a lookup was not found,
  and the multi-result log never: when every lookup returns a price nothing is logged as
  not found, the object under the key of the not-found log stays as it was, and so does,
  in every case, the object under the key of the multi-result log. When no upload fails,
  the uploads of the aggregator are the not-found log if it has entries, then the raw
  and the cleaned price files, these two also when they have no rows. After a run that
  ends with its summary the multi-result log is the header-only file of the reset, and so
  is the not-found log when every lookup returned a price.
\<close>

theorem error_log_uploaded_only_when_nonempty:
  "\<exists>raw nf.
     classify e ps = Inr (raw, [], nf) \<and>
     (all_priced e ps \<longrightarrow> nf = []) \<and>
     (nf = [] \<longrightarrow>
        objects (snd (search_part_numbers_on_rockauto e ps w)) not_found_log_csv =
          objects w not_found_log_csv) \<and>
     objects (snd (search_part_numbers_on_rockauto e ps w)) multi_result_log_csv =
       objects w multi_result_log_csv \<and>
     ((\<forall>i < 3. \<not> s3_put_fails e (put_attempts w + i)) \<longrightarrow>
        fst (search_part_numbers_on_rockauto e ps w) = Inr () \<and>
        put_log (snd (search_part_numbers_on_rockauto e ps w)) =
          put_log w @
          (if nf = [] then []
           else [(not_found_log_csv,
                  \<lparr>header = error_columns, rows = map not_found_cells nf\<rparr>)]) @
          [(output_csv_file, \<lparr>header = price_columns, rows = map price_cells raw\<rparr>),
           (cleaned_csv_file,
            \<lparr>header = price_columns, rows = map price_cells (clean raw)\<rparr>)]) \<and>
     (ps = warehouse_parts e \<and> fst (lambda_handler e w) = Inr s \<longrightarrow>
        objects (snd (lambda_handler e w)) multi_result_log_csv =
          Some (header_only error_columns) \<and>
        (all_priced e ps \<longrightarrow>
           objects (snd (lambda_handler e w)) not_found_log_csv =
             Some (header_only error_columns)))"
proof -
  obtain raw nf where c: "classify e ps = Inr (raw, [], nf)"
    by (simp add: classify_eq)
  let ?kbs = "planned_puts (raw, [], nf)"
  let ?S = "search_part_numbers_on_rockauto e ps w"
  note s = search_put_all [OF c, of w]
  have 1: "all_priced e ps \<longrightarrow> nf = []"
    using all_priced_no_entries [OF c] by blast
  have 2: "nf = [] \<longrightarrow> objects (snd ?S) not_found_log_csv = objects w not_found_log_csv"
    unfolding s using put_all_frame [OF planned_keys_not_found, of e raw w] by auto
  have 3: "objects (snd ?S) multi_result_log_csv = objects w multi_result_log_csv"
    unfolding s by (rule put_all_frame [OF planned_keys_multi])
  have 4: "fst ?S = Inr () \<and>
        put_log (snd ?S) =
          put_log w @
          (if nf = [] then []
           else [(not_found_log_csv,
                  \<lparr>header = error_columns, rows = map not_found_cells nf\<rparr>)]) @
          [(output_csv_file, \<lparr>header = price_columns, rows = map price_cells raw\<rparr>),
           (cleaned_csv_file,
            \<lparr>header = price_columns, rows = map price_cells (clean raw)\<rparr>)]"
    if ok: "\<forall>i < 3. \<not> s3_put_fails e (put_attempts w + i)"
  proof -
    from ok planned_puts_length [of raw nf]
    have "\<forall>i < length ?kbs. \<not> s3_put_fails e (put_attempts w + i)" by auto
    from put_all_ok [OF this] show ?thesis
      unfolding s by (simp add: planned_puts_def)
  qed
  have 5: "objects (snd (lambda_handler e w)) multi_result_log_csv =
          Some (header_only error_columns) \<and>
        (all_priced e ps \<longrightarrow>
           objects (snd (lambda_handler e w)) not_found_log_csv =
             Some (header_only error_columns))"
    if run: "ps = warehouse_parts e" "fst (lambda_handler e w) = Inr s"
  proof -
    from lambda_handler_success [OF run(2)] c run(1)
    have o: "objects (snd (lambda_handler e w)) =
        fold (\<lambda>kb m. m(fst kb \<mapsto> snd kb)) ?kbs
          (fold (\<lambda>kb m. m(fst kb \<mapsto> snd kb)) reset_puts (objects w))"
      by simp
    have m: "objects (snd (lambda_handler e w)) multi_result_log_csv =
        Some (header_only error_columns)"
      unfolding o
      by (simp add: fold_put_frame [OF planned_keys_multi] reset_object_values)
    have "objects (snd (lambda_handler e w)) not_found_log_csv =
        Some (header_only error_columns)" if "all_priced e ps"
    proof -
      from 1 that have "nf = []" by simp
      then show ?thesis unfolding o
        by (simp add: fold_put_frame [OF planned_keys_not_found] reset_object_values)
    qed
    with m show ?thesis by simp
  qed
  from c 1 2 3 4 5 show ?thesis by blast
qed

lemma warehouse_parts_two:
  "warehouse_parts (env_of get (Some [(''A1'', ''P1''), (''B2'', ''P2'')])) = two_parts"
  by (simp add: warehouse_parts_def env_of_def two_parts_def)

lemma lambda_handler_steady:
  "fst (lambda_handler (env_of steady_get (Some [(''A1'', ''P1''), (''B2'', ''P2'')])) world0) =
     Inr \<lparr>statusCode = 200, message = ''RockAuto scrape complete'', searched_count = 2\<rparr>"
proof -
  let ?e = "env_of steady_get (Some [(''A1'', ''P1''), (''B2'', ''P2'')])"
  have ok: "\<And>kbs w. put_all ?e kbs w =
     (Inr (),
      w\<lparr>objects := fold (\<lambda>kb m. m(fst kb \<mapsto> snd kb)) kbs (objects w),
        put_log := put_log w @ kbs,
        put_attempts := put_attempts w + length kbs\<rparr>)"
    by (rule put_all_ok) (simp add: env_of_def)
  have f: "\<And>w. fetch_part_numbers ?e w = (Inr two_parts, w)"
    using fetch_part_numbers_exits [of ?e "[(''A1'', ''P1''), (''B2'', ''P2'')]"]
    by (simp add: warehouse_parts_two) (simp add: env_of_def)
  have len: "length two_parts = 2" by (simp add: two_parts_def)
  show ?thesis
    by (simp add: lambda_handler_def clear_all_csvs_put_all ok then_do_Inr f
        search_put_all [OF classify_steady_two] len)
qed

theorem error_log_uploaded_only_when_nonempty_witness:
  "fst (search_part_numbers_on_rockauto (env_of steady_get None) two_parts world0) = Inr () \<and>
   put_log (snd (search_part_numbers_on_rockauto (env_of steady_get None) two_parts world0)) =
     [(output_csv_file,
       \<lparr>header = price_columns,
        rows = [[''A1'', ''P1'', ''42.95''], [''B2'', ''P2'', ''42.95'']]\<rparr>),
      (cleaned_csv_file,
       \<lparr>header = price_columns,
        rows = [[''A1'', ''P1'', ''42.95''], [''B2'', ''P2'', ''42.95'']]\<rparr>)] \<and>
   objects (snd (search_part_numbers_on_rockauto (env_of steady_get None) two_parts world0))
     not_found_log_csv = None \<and>
   objects
     (snd (lambda_handler (env_of steady_get (Some [(''A1'', ''P1''), (''B2'', ''P2'')])) world0))
     not_found_log_csv = Some \<lparr>header = [''VendorPartNumber'', ''Error''], rows = []\<rparr>"
proof -
  let ?e = "env_of steady_get None"
  let ?e2 = "env_of steady_get (Some [(''A1'', ''P1''), (''B2'', ''P2'')])"
  have ok: "\<forall>i < 3. \<not> s3_put_fails ?e (put_attempts world0 + i)"
    by (simp add: env_of_def)
  have cl: "clean [\<lparr>SupplierPartNumber = ''A1'', Partnumber = ''P1'', Cost = ''42.95''\<rparr>,
           \<lparr>SupplierPartNumber = ''B2'', Partnumber = ''P2'', Cost = ''42.95''\<rparr>] =
     [\<lparr>SupplierPartNumber = ''A1'', Partnumber = ''P1'', Cost = ''42.95''\<rparr>,
           \<lparr>SupplierPartNumber = ''B2'', Partnumber = ''P2'', Cost = ''42.95''\<rparr>]"
    by (simp add: clean_def eval_defs)
  have priced: "all_priced ?e2 two_parts"
    by (simp add: all_priced_def missing_def price_of_def env_of_def steady_get_def
        fetch_price_page two_parts_def)
  from error_log_uploaded_only_when_nonempty [of ?e two_parts world0] ok
  have 1: "fst (search_part_numbers_on_rockauto ?e two_parts world0) = Inr () \<and>
   put_log (snd (search_part_numbers_on_rockauto ?e two_parts world0)) =
     [(output_csv_file,
       \<lparr>header = price_columns,
        rows = [[''A1'', ''P1'', ''42.95''], [''B2'', ''P2'', ''42.95'']]\<rparr>),
      (cleaned_csv_file,
       \<lparr>header = price_columns,
        rows = [[''A1'', ''P1'', ''42.95''], [''B2'', ''P2'', ''42.95'']]\<rparr>)] \<and>
   objects (snd (search_part_numbers_on_rockauto ?e two_parts world0)) not_found_log_csv = None"
    by (auto simp: classify_steady_two cl price_cells_def world0_def)
  from error_log_uploaded_only_when_nonempty
    [of ?e2 two_parts world0 "\<lparr>statusCode = 200, message = ''RockAuto scrape complete'',
       searched_count = 2\<rparr>"] priced
  have 2: "objects (snd (lambda_handler ?e2 world0)) not_found_log_csv =
      Some \<lparr>header = [''VendorPartNumber'', ''Error''], rows = []\<rparr>"
    by (auto simp: warehouse_parts_two lambda_handler_steady header_only_def
        error_columns_def)
  from 1 2 show ?thesis by simp
qed

end
